theory Spec2Isabelle
  imports Main "HOL-Library.Sublist" "HOL-Library.Word"
begin

unbundle bit_operations_syntax

section \<open>Go strings and the library functions the program calls\<close>

text \<open>
  A Go string is a sequence of bytes; \<^typ>\<open>string\<close> (a list of 8-bit characters) is
  that sequence. Text is UTF-8: a rune above U+007F is several bytes, each of them
  \<open>\<ge> 0x80\<close>. The functions below are the ones of packages \<^verbatim>\<open>strings\<close>,
  \<^verbatim>\<open>regexp\<close> and \<^verbatim>\<open>bufio\<close> that \<^verbatim>\<open>main.go\<close> calls, as far as the program
  observes them.
\<close>

definition byte :: "char \<Rightarrow> nat" where
  "byte c = of_char c"

definition isASCII :: "string \<Rightarrow> bool" where
  "isASCII s = list_all (\<lambda>c. byte c < 128) s"

subsection \<open>Unicode white space (\<^verbatim>\<open>unicode.IsSpace\<close>) in UTF-8\<close>

text \<open>
  \<^verbatim>\<open>unicode.IsSpace\<close> holds of U+0009..U+000D, U+0020, U+0085, U+00A0, U+1680,
  U+2000..U+200A, U+2028, U+2029, U+202F, U+205F and U+3000. \<open>spaceRunes\<close> lists their
  UTF-8 encodings. No encoding starts with a continuation byte (\<open>0x80..0xBF\<close>), and a
  lead byte is never consumed as part of another rune, so looking for an encoding at a
  byte position finds exactly the white-space runes the decoder finds.
\<close>

definition spaceRunes :: "string list" where
  "spaceRunes =
     [[CHR 0x09], [CHR 0x0A], [CHR 0x0B], [CHR 0x0C], [CHR 0x0D], [CHR 0x20],
      [CHR 0xC2, CHR 0x85], [CHR 0xC2, CHR 0xA0],
      [CHR 0xE1, CHR 0x9A, CHR 0x80],
      [CHR 0xE2, CHR 0x80, CHR 0x80], [CHR 0xE2, CHR 0x80, CHR 0x81],
      [CHR 0xE2, CHR 0x80, CHR 0x82], [CHR 0xE2, CHR 0x80, CHR 0x83],
      [CHR 0xE2, CHR 0x80, CHR 0x84], [CHR 0xE2, CHR 0x80, CHR 0x85],
      [CHR 0xE2, CHR 0x80, CHR 0x86], [CHR 0xE2, CHR 0x80, CHR 0x87],
      [CHR 0xE2, CHR 0x80, CHR 0x88], [CHR 0xE2, CHR 0x80, CHR 0x89],
      [CHR 0xE2, CHR 0x80, CHR 0x8A],
      [CHR 0xE2, CHR 0x80, CHR 0xA8], [CHR 0xE2, CHR 0x80, CHR 0xA9],
      [CHR 0xE2, CHR 0x80, CHR 0xAF],
      [CHR 0xE2, CHR 0x81, CHR 0x9F],
      [CHR 0xE3, CHR 0x80, CHR 0x80]]"

text \<open>The white-space rune a string starts with, and the one it ends with.\<close>

definition spaceAtStart :: "string \<Rightarrow> string option" where
  "spaceAtStart s = find (\<lambda>w. prefix w s) spaceRunes"

definition spaceAtEnd :: "string \<Rightarrow> string option" where
  "spaceAtEnd s = find (\<lambda>w. suffix w s) spaceRunes"

subsection \<open>\<^verbatim>\<open>strings.TrimSpace\<close>, \<^verbatim>\<open>strings.HasSuffix\<close>, \<^verbatim>\<open>strings.TrimPrefix\<close>, \<^verbatim>\<open>strings.Join\<close>\<close>

fun trimLeft :: "string \<Rightarrow> string" where
  "trimLeft [] = []"
| "trimLeft (c # cs) =
     (case spaceAtStart (c # cs) of
        None \<Rightarrow> c # cs
      | Some w \<Rightarrow> trimLeft (drop (length w - 1) cs))"

definition trimRightStep :: "string \<Rightarrow> string option" where
  "trimRightStep s =
     (case spaceAtEnd s of
        None \<Rightarrow> None
      | Some w \<Rightarrow> if w = [] then None else Some (take (length s - length w) s))"

function trimRight :: "string \<Rightarrow> string" where
  "trimRight s = (case trimRightStep s of None \<Rightarrow> s | Some s' \<Rightarrow> trimRight s')"
  by pat_completeness auto

lemma trimRightStep_shorter: "trimRightStep s = Some s' \<Longrightarrow> length s' < length s"
  by (auto simp: trimRightStep_def spaceAtEnd_def find_Some_iff suffix_def
      split: option.splits if_splits)

termination trimRight
  by (relation "measure length") (auto dest: trimRightStep_shorter)

declare trimRight.simps [simp del]

definition TrimSpace :: "string \<Rightarrow> string" where
  "TrimSpace s = trimRight (trimLeft s)"

definition HasSuffix :: "string \<Rightarrow> string \<Rightarrow> bool" where
  "HasSuffix s suf = suffix suf s"

definition TrimPrefix :: "string \<Rightarrow> string \<Rightarrow> string" where
  "TrimPrefix s pre = (if prefix pre s then drop (length pre) s else s)"

fun Join :: "string list \<Rightarrow> string \<Rightarrow> string" where
  "Join [] sep = []"
| "Join [x] sep = x"
| "Join (x # y # ys) sep = x @ sep @ Join (y # ys) sep"

subsection \<open>\<^verbatim>\<open>strings.ToLower\<close>\<close>

text \<open>
  On a string of ASCII bytes \<^verbatim>\<open>ToLower\<close> maps \<open>A..Z\<close> to \<open>a..z\<close> byte by byte. On any
  other string it is \<^verbatim>\<open>strings.Map(unicode.ToLower, s)\<close>, which reads the Unicode case
  tables; that path is the parameter \<open>uni\<close>, so every theorem below holds whatever
  the tables are.
\<close>

definition lowerByte :: "char \<Rightarrow> char" where
  "lowerByte c = (if 65 \<le> byte c \<and> byte c \<le> 90 then char_of (byte c + 32) else c)"

definition ToLower :: "(string \<Rightarrow> string) \<Rightarrow> string \<Rightarrow> string" where
  "ToLower uni s = (if isASCII s then map lowerByte s else uni s)"

subsection \<open>\<^verbatim>\<open>strings.NewReplacer(...).Replace\<close>\<close>

text \<open>
  The generic replacer walks the string once; at each position the first pair, in
  argument order, whose old string starts there is applied and the walk goes on after
  the match; where no pair matches, the byte is copied.
\<close>

fun Replace :: "(string \<times> string) list \<Rightarrow> string \<Rightarrow> string" where
  "Replace ps [] = []"
| "Replace ps (c # cs) =
     (case find (\<lambda>(old, new). old \<noteq> [] \<and> prefix old (c # cs)) ps of
        None \<Rightarrow> c # Replace ps cs
      | Some (old, new) \<Rightarrow> new @ Replace ps (drop (length old - 1) cs))"

subsection \<open>\<^verbatim>\<open>strings.Fields\<close>\<close>

text \<open>
  \<open>fieldsFrom cur s\<close>: \<open>cur\<close> is the field being read (empty between fields, where the
  source has \<^verbatim>\<open>start < 0\<close>).
\<close>

definition flush :: "string \<Rightarrow> string list" where
  "flush cur = (if cur = [] then [] else [cur])"

fun fieldsFrom :: "string \<Rightarrow> string \<Rightarrow> string list" where
  "fieldsFrom cur [] = flush cur"
| "fieldsFrom cur (c # cs) =
     (case spaceAtStart (c # cs) of
        None \<Rightarrow> fieldsFrom (cur @ [c]) cs
      | Some w \<Rightarrow> flush cur @ fieldsFrom [] (drop (length w - 1) cs))"

definition Fields :: "string \<Rightarrow> string list" where
  "Fields s = fieldsFrom [] s"

subsection \<open>The regular expression \<^verbatim>\<open>([a-z0-9-]+\.)+[a-z]{2,}\<close> and \<^verbatim>\<open>FindString\<close>\<close>

text \<open>
  Go's \<^verbatim>\<open>regexp\<close> returns the leftmost match and, among the matches starting there, the
  one a backtracking engine finds first; the quantifiers are greedy. For this
  expression: a label \<^verbatim>\<open>[a-z0-9-]+\<close> followed by \<^verbatim>\<open>\.\<close> can only be the whole run of
  label characters (a shorter one is followed by a label character, not by a dot);
  \<open>reGroup\<close> is one iteration of the group. After an iteration the engine first tries
  another iteration and, only if no match comes of it, the final \<^verbatim>\<open>[a-z]{2,}\<close> at that
  position (\<open>reRest\<close>). The final part takes the whole run of letters (\<open>reFinal\<close>). The
  classes hold ASCII bytes only, so matching bytes is matching runes.
\<close>

definition isLabel :: "char \<Rightarrow> bool" where
  "isLabel c = ((97 \<le> byte c \<and> byte c \<le> 122) \<or> (48 \<le> byte c \<and> byte c \<le> 57) \<or> c = CHR ''-'')"

definition isAlpha :: "char \<Rightarrow> bool" where
  "isAlpha c = (97 \<le> byte c \<and> byte c \<le> 122)"

definition reGroup :: "string \<Rightarrow> (string \<times> string) option" where
  "reGroup s =
     (let l = takeWhile isLabel s; r = dropWhile isLabel s
      in if l \<noteq> [] \<and> r \<noteq> [] \<and> hd r = CHR ''.'' then Some (l @ ''.'', tl r) else None)"

definition reFinal :: "string \<Rightarrow> string option" where
  "reFinal s = (let l = takeWhile isAlpha s in if 2 \<le> length l then Some l else None)"

lemma reGroup_shorter: "reGroup s = Some (g, r) \<Longrightarrow> length r < length s"
proof -
  assume a: "reGroup s = Some (g, r)"
  then have ne: "dropWhile isLabel s \<noteq> []" and r: "r = tl (dropWhile isLabel s)"
    by (simp_all add: reGroup_def Let_def split: if_splits)
  have "length (dropWhile isLabel s) \<le> length s"
    by (rule length_dropWhile_le)
  moreover from ne have "length (tl (dropWhile isLabel s)) < length (dropWhile isLabel s)"
    by (cases "dropWhile isLabel s") simp_all
  ultimately show ?thesis
    using r by simp
qed

function reRest :: "string \<Rightarrow> string option" where
  "reRest s =
     (case reGroup s of
        None \<Rightarrow> reFinal s
      | Some (g, r) \<Rightarrow>
          (case reRest r of
             Some m \<Rightarrow> Some (g @ m)
           | None \<Rightarrow> reFinal s))"
  by pat_completeness auto

termination reRest
  by (relation "measure length") (auto dest: reGroup_shorter)

declare reRest.simps [simp del]

definition reAt :: "string \<Rightarrow> string option" where
  "reAt s =
     (case reGroup s of
        None \<Rightarrow> None
      | Some (g, r) \<Rightarrow> (case reRest r of None \<Rightarrow> None | Some m \<Rightarrow> Some (g @ m)))"

fun FindString :: "string \<Rightarrow> string" where
  "FindString [] = []"
| "FindString (c # cs) =
     (case reAt (c # cs) of Some m \<Rightarrow> m | None \<Rightarrow> FindString cs)"

section \<open>The domain normalizer\<close>

definition repls :: "(string \<times> string) list" where
  "repls =
     [([CHR 0x09], '' ''), ('','', '' ''), ('';'', '' ''), (''|'', '' ''),
      ([CHR 0x0D], '' ''), (''https://'', []), (''http://'', []), (''/'', '' '')]"

text \<open>
  The loop over the tokens: \<open>seen\<close> is the set of keys of the map \<^verbatim>\<open>seen\<close>, \<open>out\<close> the
  slice built so far.
\<close>

fun collect :: "string set \<Rightarrow> string list \<Rightarrow> string list \<Rightarrow> string list" where
  "collect seen out [] = out"
| "collect seen out (tok # toks) =
     (let m = FindString tok
      in if m \<noteq> [] then
           (let m' = TrimPrefix m ''www.''
            in if m' \<notin> seen then collect (insert m' seen) (out @ [m']) toks
               else collect seen out toks)
         else collect seen out toks)"

definition normalizeDomains :: "(string \<Rightarrow> string) \<Rightarrow> string \<Rightarrow> string list" where
  "normalizeDomains uni s = collect {} [] (Fields (Replace repls (ToLower uni s)))"

subsection \<open>Characters of host names and of the separators of a joined list\<close>

definition isHost :: "char \<Rightarrow> bool" where
  "isHost c = (isLabel c \<or> c = CHR ''.'')"

definition isSep :: "char \<Rightarrow> bool" where
  "isSep c = (c = CHR 0x0A \<or> c = CHR '' '')"

text \<open>What the loop appends: a string matched by the expression, less a leading \<^verbatim>\<open>www.\<close>.\<close>

definition stripped :: "string \<Rightarrow> bool" where
  "stripped e = (\<exists>m. reAt m = Some m \<and> e = TrimPrefix m ''www.'')"


subsection \<open>\<^verbatim>\<open>bufio.Scanner\<close> with \<^verbatim>\<open>ScanLines\<close>\<close>

text \<open>
  The scanner reads lines ended by a newline, drops one trailing carriage return, and
  returns a last unterminated line if it is not empty. A line that does not fit the
  buffer (\<open>mx\<close> bytes) ends the scan with \<^verbatim>\<open>ErrTooLong\<close>: \<^verbatim>\<open>Scan\<close> returns false.
\<close>

definition dropCR :: "string \<Rightarrow> string" where
  "dropCR s = (if s \<noteq> [] \<and> last s = CHR 0x0D then butlast s else s)"

definition notNL :: "char \<Rightarrow> bool" where
  "notNL c = (c \<noteq> CHR 0x0A)"

function scanLines :: "nat \<Rightarrow> string \<Rightarrow> string list" where
  "scanLines mx s =
     (if s = [] then []
      else if mx \<le> length (takeWhile notNL s) then []
      else if dropWhile notNL s = [] then [dropCR (takeWhile notNL s)]
      else dropCR (takeWhile notNL s) # scanLines mx (tl (dropWhile notNL s)))"
  by pat_completeness auto

lemma tl_dropWhile_shorter: "x \<in> set s \<Longrightarrow> length (dropWhile P s) - Suc 0 < length s"
proof -
  assume "x \<in> set s"
  then have "0 < length s" by (cases s) simp_all
  moreover have "length (dropWhile P s) \<le> length s" by (rule length_dropWhile_le)
  ultimately show ?thesis by arith
qed

termination scanLines
  by (relation "measure (\<lambda>(mx, s). length s)") (auto intro: tl_dropWhile_shorter)

declare scanLines.simps [simp del]

definition maxTokenSize :: nat where
  "maxTokenSize = 10 * 1024 * 1024"

text \<open>\<^verbatim>\<open>strings.Split(s, "\n")\<close>, the lines of a text as a viewport shows them.\<close>

function splitNL :: "string \<Rightarrow> string list" where
  "splitNL s =
     (if dropWhile notNL s = [] then [s]
      else takeWhile notNL s # splitNL (tl (dropWhile notNL s)))"
  by pat_completeness auto

termination splitNL
  by (relation "measure length") (auto intro: tl_dropWhile_shorter)

declare splitNL.simps [simp del]

section \<open>The session\<close>

subsection \<open>Data\<close>

datatype step = stepEmail | stepAPI | stepDomains | stepConfirm | stepRunning | stepDone

text \<open>
  An error value, as far as the program looks at it: the text of \<^verbatim>\<open>err.Error()\<close> and
  whether \<^verbatim>\<open>errors.Is(err, context.Canceled)\<close> holds. \<^verbatim>\<open>nil\<close> is \<open>None\<close>.
\<close>

record goerror =
  errText :: string
  errCanceled :: bool

text \<open>
  Messages of the event loop. A key message is given by its \<^verbatim>\<open>String()\<close>, the only
  thing \<^verbatim>\<open>Update\<close> reads of it; \<open>OtherMsg\<close> stands for the messages of the libraries
  (window size, cursor blink, spinner tick).
\<close>

datatype msg = KeyMsg string | tickMsg | doneMsg "goerror option" | lineMsg string | OtherMsg nat

text \<open>
  The widgets of the \<^verbatim>\<open>bubbles\<close> library. Of a text input and a text area the program
  reads the value only; the rest of their state (cursor, focus) is \<open>tiState\<close>,
  \<open>taState\<close>, and what their \<^verbatim>\<open>Focus\<close> and \<^verbatim>\<open>Update\<close> do is a parameter (\<open>env\<close> below).
  The viewport holds the text it was given and a scroll offset; its height is 18
  (\<^verbatim>\<open>viewport.New(100, 18)\<close>).
\<close>

record textinput_Model =
  tiValue :: string
  tiState :: nat

record textarea_Model =
  taValue :: string
  taState :: nat

record viewport_Model =
  vpContent :: string
  YOffset :: nat

datatype style = titleStyle | helpStyle | okStyle | errStyle

text \<open>
  The model. \<open>lines\<close> and \<open>doneCh\<close> are the contents of the channels \<^verbatim>\<open>m.lines\<close> and
  \<^verbatim>\<open>m.done\<close>, oldest first. \<open>ctx\<close> is \<open>None\<close> before \<^verbatim>\<open>context.WithCancel\<close>, then
  \<open>Some c\<close> with \<open>c\<close> true once the context is cancelled; \<open>cancel\<close> says that
  \<^verbatim>\<open>m.cancel\<close> is not \<^verbatim>\<open>nil\<close>. The field \<^verbatim>\<open>m.cmd\<close> is never read and is left out. The
  capacities of the channels (4096 and 1) bound what a sender can put there; \<^verbatim>\<open>Update\<close>
  only receives.
\<close>

record model =
  scriptPath :: string
  email :: textinput_Model
  apiKey :: textinput_Model
  domArea :: textarea_Model
  normalized :: "string list"
  stage :: step
  spinner :: nat
  viewport :: viewport_Model
  lines :: "string list"
  doneCh :: "goerror option list"
  ctx :: "bool option"
  cancel :: bool
  logBuf :: string

text \<open>
  Commands returned to the event loop: \<^verbatim>\<open>tea.Quit\<close>, the timer of \<^verbatim>\<open>nextTick\<close>, the
  closure of \<^verbatim>\<open>startProcessCmd\<close> (which holds a pointer to the model of the moment),
  \<^verbatim>\<open>tea.Batch\<close>, and the commands of the widgets.
\<close>

datatype cmd = Quit | TickCmd | ProcessCmd model | Batch "cmd list" | WidgetCmd nat

text \<open>What the program does not define itself: the libraries and the Unicode tables.\<close>

record env =
  uniLower :: "string \<Rightarrow> string"
  render :: "style \<Rightarrow> string \<Rightarrow> string"
  tiFocus :: "textinput_Model \<Rightarrow> textinput_Model"
  tiUpdate :: "textinput_Model \<Rightarrow> msg \<Rightarrow> textinput_Model \<times> cmd option"
  taFocus :: "textarea_Model \<Rightarrow> textarea_Model"
  taUpdate :: "textarea_Model \<Rightarrow> msg \<Rightarrow> textarea_Model \<times> cmd option"
  spUpdate :: "nat \<Rightarrow> msg \<Rightarrow> nat \<times> cmd option"

text \<open>
  The file system as \<^verbatim>\<open>os.Stat\<close> and \<^verbatim>\<open>os.Chmod\<close> see it: for a path, the error text of
  \<^verbatim>\<open>Stat\<close> or the \<^verbatim>\<open>FileMode\<close> of the file, and whether \<^verbatim>\<open>Chmod\<close> on it fails.
\<close>

record fsys =
  statOf :: "string \<Rightarrow> string + 32 word"
  chmodFails :: "string \<Rightarrow> bool"

subsection \<open>The viewport\<close>

definition lineCount :: "string \<Rightarrow> nat" where
  "lineCount s = length (splitNL s)"

definition maxYOffset :: "viewport_Model \<Rightarrow> nat" where
  "maxYOffset v = lineCount (vpContent v) - 18"

definition SetYOffset :: "nat \<Rightarrow> viewport_Model \<Rightarrow> viewport_Model" where
  "SetYOffset n v = v\<lparr>YOffset := min n (maxYOffset v)\<rparr>"

definition GotoBottom :: "viewport_Model \<Rightarrow> viewport_Model" where
  "GotoBottom v = SetYOffset (maxYOffset v) v"

definition SetContent :: "string \<Rightarrow> viewport_Model \<Rightarrow> viewport_Model" where
  "SetContent s v =
     (let v' = v\<lparr>vpContent := s\<rparr>
      in if YOffset v' > lineCount s - 1 then GotoBottom v' else v')"

definition LineDown :: "nat \<Rightarrow> viewport_Model \<Rightarrow> viewport_Model" where
  "LineDown n v =
     (if maxYOffset v \<le> YOffset v \<or> n = 0 then v else SetYOffset (YOffset v + n) v)"

definition LineUp :: "nat \<Rightarrow> viewport_Model \<Rightarrow> viewport_Model" where
  "LineUp n v = (if YOffset v = 0 \<or> n = 0 then v else SetYOffset (YOffset v - n) v)"

subsection \<open>\<^verbatim>\<open>appendLogLine\<close> and \<^verbatim>\<open>nextTick\<close>\<close>

definition appendLogLine :: "model \<Rightarrow> string \<Rightarrow> model" where
  "appendLogLine m s =
     (if s = [] then m
      else
        (let buf = (if logBuf m \<noteq> [] then logBuf m @ [CHR 0x0A] else logBuf m) @ s
         in m\<lparr>logBuf := buf, viewport := GotoBottom (SetContent buf (viewport m))\<rparr>))"

definition nextTick :: cmd where
  "nextTick = TickCmd"


subsection \<open>\<^verbatim>\<open>assertExecutable\<close>\<close>

text \<open>
  \<^verbatim>\<open>ModeDir\<close> is bit 31 of a \<^verbatim>\<open>FileMode\<close>; octal \<^verbatim>\<open>0111\<close>, \<^verbatim>\<open>0755\<close> and \<^verbatim>\<open>0777\<close> are
  \<open>0x49\<close>, \<open>0x1ED\<close> and \<open>0x1FF\<close>. \<^verbatim>\<open>ModeType\<close> is the mask of the bits that say what kind of
  file it is (\<^verbatim>\<open>ModeDir | ModeSymlink | ModeNamedPipe | ModeSocket | ModeDevice |
  ModeCharDevice | ModeIrregular\<close>, bits 31, 27, 26, 25, 24, 21 and 19). A successful
  \<^verbatim>\<open>Chmod(p, perm)\<close> leaves the kind of the file and sets all the rest of the mode to
  \<open>perm\<close>: the nine permission bits are those of \<open>perm\<close>, and setuid, setgid and sticky,
  which \<open>perm\<close> does not have, are cleared. Its error is dropped by the source. The
  result is the error text, or \<open>None\<close> for \<^verbatim>\<open>nil\<close>, and the file system afterwards.
\<close>

definition ModeDir :: "32 word" where
  "ModeDir = push_bit 31 1"

definition ModeType :: "32 word" where
  "ModeType = 0x8F280000"

definition Chmod :: "string \<Rightarrow> 32 word \<Rightarrow> fsys \<Rightarrow> fsys" where
  "Chmod p perm fs =
     (case statOf fs p of
        Inl e \<Rightarrow> fs
      | Inr mode \<Rightarrow>
          if chmodFails fs p then fs
          else fs\<lparr>statOf := (statOf fs)(p := Inr ((mode AND ModeType) OR perm))\<rparr>)"

definition assertExecutable :: "fsys \<Rightarrow> string \<Rightarrow> string option \<times> fsys" where
  "assertExecutable fs p =
     (if p = [] then (Some ''script path is empty'', fs)
      else
        (case statOf fs p of
           Inl err \<Rightarrow> (Some (''script not found at '' @ p @ '': '' @ err), fs)
         | Inr mode \<Rightarrow>
             if mode AND ModeDir \<noteq> 0 then (Some (p @ '' is a directory''), fs)
             else if mode AND 0x49 = 0 then (None, Chmod p 0x1ED fs)
             else (None, fs)))"

subsection \<open>\<^verbatim>\<open>startProcessCmd\<close>\<close>

text \<open>
  What the operating system does with one run: whether \<^verbatim>\<open>StdinPipe\<close> gave a pipe (its
  error is dropped by the source), the error of \<^verbatim>\<open>cmd.Start\<close>, the error of \<^verbatim>\<open>cmd.Wait\<close>
  and the bytes the process writes to its standard output and standard error.
\<close>

record procOutcome =
  stdinPipeOk :: bool
  startErr :: "goerror option"
  waitErr :: "goerror option"
  procOutput :: string

text \<open>
  The effects of the closure, in order, and of the scanner goroutine. \<open>SendLine\<close> is a
  send on \<^verbatim>\<open>m.lines\<close>, \<open>SendDone\<close> a send on \<^verbatim>\<open>m.done\<close>. The closure ends by returning a
  message to the event loop, or by the panic of a write to the \<^verbatim>\<open>nil\<close> pipe.
\<close>

datatype effect =
  Start string
  | WriteStdin string
  | CloseStdin
  | Wait
  | ClosePipeW
  | SendLine string
  | SendDone "goerror option"

datatype cmdResult = Returned msg | Panicked

record run =
  closure :: "effect list"
  scanner :: "effect list"
  result :: cmdResult

definition rawDomains :: "model \<Rightarrow> string" where
  "rawDomains m =
     (if \<not> HasSuffix (taValue (domArea m)) [CHR 0x0A]
      then taValue (domArea m) @ [CHR 0x0A]
      else taValue (domArea m))"

definition startProcessCmd :: "model \<Rightarrow> procOutcome \<Rightarrow> run" where
  "startProcessCmd m po =
     (case startErr po of
        Some err \<Rightarrow>
          \<lparr>closure = [Start (scriptPath m)], scanner = [], result = Returned (doneMsg (Some err))\<rparr>
      | None \<Rightarrow>
          if \<not> stdinPipeOk po then
            \<lparr>closure = [Start (scriptPath m)],
             scanner = map SendLine (scanLines maxTokenSize (procOutput po)),
             result = Panicked\<rparr>
          else
            \<lparr>closure =
               [Start (scriptPath m),
                WriteStdin (TrimSpace (tiValue (email m)) @ [CHR 0x0A]),
                WriteStdin (TrimSpace (tiValue (apiKey m)) @ [CHR 0x0A]),
                WriteStdin (rawDomains m),
                CloseStdin,
                Wait,
                ClosePipeW],
             scanner = map SendLine (scanLines maxTokenSize (procOutput po)),
             result = Returned (doneMsg (waitErr po))\<rparr>)"

subsection \<open>\<^verbatim>\<open>Update\<close>\<close>

definition isQuit :: "string \<Rightarrow> bool" where
  "isQuit k = (k = ''q'' \<or> k = ''ctrl+c'')"

definition emailWidget :: "env \<Rightarrow> model \<Rightarrow> msg \<Rightarrow> model \<times> cmd option" where
  "emailWidget e m mg = (case tiUpdate e (email m) mg of (w, c) \<Rightarrow> (m\<lparr>email := w\<rparr>, c))"

definition apiKeyWidget :: "env \<Rightarrow> model \<Rightarrow> msg \<Rightarrow> model \<times> cmd option" where
  "apiKeyWidget e m mg = (case tiUpdate e (apiKey m) mg of (w, c) \<Rightarrow> (m\<lparr>apiKey := w\<rparr>, c))"

definition domAreaWidget :: "env \<Rightarrow> model \<Rightarrow> msg \<Rightarrow> model \<times> cmd option" where
  "domAreaWidget e m mg = (case taUpdate e (domArea m) mg of (w, c) \<Rightarrow> (m\<lparr>domArea := w\<rparr>, c))"

definition updateEmail :: "env \<Rightarrow> model \<Rightarrow> msg \<Rightarrow> model \<times> cmd option" where
  "updateEmail e m mg =
     (case mg of
        KeyMsg k \<Rightarrow>
          if isQuit k then (m, Some Quit)
          else if k = ''enter'' then
            (if TrimSpace (tiValue (email m)) = [] then (m, None)
             else (m\<lparr>stage := stepAPI, apiKey := tiFocus e (apiKey m)\<rparr>, None))
          else emailWidget e m mg
      | _ \<Rightarrow> emailWidget e m mg)"

definition updateAPI :: "env \<Rightarrow> model \<Rightarrow> msg \<Rightarrow> model \<times> cmd option" where
  "updateAPI e m mg =
     (case mg of
        KeyMsg k \<Rightarrow>
          if isQuit k then (m, Some Quit)
          else if k = ''esc'' then (m\<lparr>stage := stepEmail, email := tiFocus e (email m)\<rparr>, None)
          else if k = ''enter'' then
            (if TrimSpace (tiValue (apiKey m)) = [] then (m, None)
             else (m\<lparr>stage := stepDomains, domArea := taFocus e (domArea m)\<rparr>, None))
          else apiKeyWidget e m mg
      | _ \<Rightarrow> apiKeyWidget e m mg)"

definition updateDomains :: "env \<Rightarrow> model \<Rightarrow> msg \<Rightarrow> model \<times> cmd option" where
  "updateDomains e m mg =
     (case mg of
        KeyMsg k \<Rightarrow>
          if isQuit k then (m, Some Quit)
          else if k = ''esc'' then (m\<lparr>stage := stepAPI, apiKey := tiFocus e (apiKey m)\<rparr>, None)
          else if k = ''ctrl+d'' then
            (m\<lparr>normalized := normalizeDomains (uniLower e) (taValue (domArea m)),
               stage := stepConfirm\<rparr>, None)
          else domAreaWidget e m mg
      | _ \<Rightarrow> domAreaWidget e m mg)"

text \<open>
  On \<^verbatim>\<open>y\<close> the closure of \<^verbatim>\<open>startProcessCmd\<close> is made from the model as it is returned
  (stage, viewport and context already set).
\<close>

definition confirmRun :: "env \<Rightarrow> fsys \<Rightarrow> model \<Rightarrow> (model \<times> cmd option) \<times> fsys" where
  "confirmRun e fs m =
     (case assertExecutable fs (scriptPath m) of
        (Some err, fs') \<Rightarrow>
          ((m\<lparr>viewport := SetContent (render e errStyle err) (viewport m), stage := stepDone\<rparr>,
            None), fs')
      | (None, fs') \<Rightarrow>
          (let m' = m\<lparr>stage := stepRunning, viewport := SetContent [] (viewport m),
                        ctx := Some False, cancel := True\<rparr>
           in ((m', Some (Batch [ProcessCmd m', nextTick])), fs')))"

definition updateConfirm :: "env \<Rightarrow> fsys \<Rightarrow> model \<Rightarrow> msg \<Rightarrow> (model \<times> cmd option) \<times> fsys" where
  "updateConfirm e fs m mg =
     (case mg of
        KeyMsg k \<Rightarrow>
          if isQuit k then ((m, Some Quit), fs)
          else if k = ''b'' then ((m\<lparr>stage := stepAPI, apiKey := tiFocus e (apiKey m)\<rparr>, None), fs)
          else if k = ''n'' then ((m\<lparr>stage := stepDomains, domArea := taFocus e (domArea m)\<rparr>, None), fs)
          else if k = ''y'' then confirmRun e fs m
          else ((m, None), fs)
      | _ \<Rightarrow> ((m, None), fs))"

text \<open>
  The loop that drains \<^verbatim>\<open>m.lines\<close>: at most \<open>n\<close> lines, stopping at the first empty
  \<^verbatim>\<open>select\<close>.
\<close>

fun drain :: "nat \<Rightarrow> model \<Rightarrow> model" where
  "drain 0 m = m"
| "drain (Suc n) m =
     (case lines m of
        [] \<Rightarrow> m
      | ln # rest \<Rightarrow> drain n (appendLogLine (m\<lparr>lines := rest\<rparr>) ln))"

definition finish :: "env \<Rightarrow> model \<Rightarrow> model \<times> cmd option" where
  "finish e m =
     (case doneCh m of
        err # rest \<Rightarrow>
          (let m1 = m\<lparr>doneCh := rest\<rparr>;
               m2 = (case err of
                       Some er \<Rightarrow>
                         if \<not> errCanceled er
                         then appendLogLine m1 (render e errStyle (''Process error: '' @ errText er))
                         else appendLogLine m1 (render e okStyle ''Done.'')
                     | None \<Rightarrow> appendLogLine m1 (render e okStyle ''Done.''))
           in (m2\<lparr>stage := stepDone\<rparr>, None))
      | [] \<Rightarrow> (m, Some nextTick))"

definition updateRunning :: "env \<Rightarrow> model \<Rightarrow> msg \<Rightarrow> model \<times> cmd option" where
  "updateRunning e m mg =
     (case mg of
        KeyMsg k \<Rightarrow>
          if isQuit k then
            ((if cancel m then m\<lparr>ctx := map_option (\<lambda>c. True) (ctx m)\<rparr> else m), Some Quit)
          else if k \<in> {''pgdown'', '' '', ''j'', ''down''} then
            (m\<lparr>viewport := LineDown 3 (viewport m)\<rparr>, None)
          else if k \<in> {''pgup'', ''k'', ''up''} then
            (m\<lparr>viewport := LineUp 3 (viewport m)\<rparr>, None)
          else (m, None)
      | tickMsg \<Rightarrow> finish e (drain 200 m)
      | _ \<Rightarrow> (case spUpdate e (spinner m) mg of (sp, c) \<Rightarrow> (m\<lparr>spinner := sp\<rparr>, c)))"

definition updateDone :: "model \<Rightarrow> msg \<Rightarrow> model \<times> cmd option" where
  "updateDone m mg =
     (case mg of
        KeyMsg k \<Rightarrow> if isQuit k then (m, Some Quit) else (m, None)
      | _ \<Rightarrow> (m, None))"

definition Update :: "env \<Rightarrow> fsys \<Rightarrow> model \<Rightarrow> msg \<Rightarrow> (model \<times> cmd option) \<times> fsys" where
  "Update e fs m mg =
     (case stage m of
        stepEmail \<Rightarrow> (updateEmail e m mg, fs)
      | stepAPI \<Rightarrow> (updateAPI e m mg, fs)
      | stepDomains \<Rightarrow> (updateDomains e m mg, fs)
      | stepConfirm \<Rightarrow> updateConfirm e fs m mg
      | stepRunning \<Rightarrow> (updateRunning e m mg, fs)
      | stepDone \<Rightarrow> (updateDone m mg, fs))"


subsection \<open>\<^verbatim>\<open>initialModel\<close>\<close>

text \<open>
  \<open>getenv\<close> is \<^verbatim>\<open>os.Getenv\<close>; \<open>tiSet\<close> and \<open>taSet\<close> are the \<^verbatim>\<open>SetValue\<close> of the widgets
  (they sanitize the text). Both channels are empty.
\<close>

definition prefill :: "(string \<Rightarrow> 'w \<Rightarrow> 'w) \<Rightarrow> string \<Rightarrow> 'w \<Rightarrow> 'w" where
  "prefill setv v w = (if v \<noteq> [] then setv v w else w)"

definition initialModel ::
  "env \<Rightarrow> (string \<Rightarrow> string) \<Rightarrow> (string \<Rightarrow> textinput_Model \<Rightarrow> textinput_Model) \<Rightarrow>
   (string \<Rightarrow> textarea_Model \<Rightarrow> textarea_Model) \<Rightarrow> string \<Rightarrow> model" where
  "initialModel e getenv tiSet taSet script =
     \<lparr>scriptPath = script,
      email = prefill tiSet (getenv ''CW_EMAIL'') (tiFocus e \<lparr>tiValue = [], tiState = 0\<rparr>),
      apiKey = prefill tiSet (getenv ''CW_API_KEY'') \<lparr>tiValue = [], tiState = 0\<rparr>,
      domArea = prefill taSet (getenv ''CW_DOMAINS'') \<lparr>taValue = [], taState = 0\<rparr>,
      normalized = [],
      stage = stepEmail,
      spinner = 0,
      viewport = \<lparr>vpContent = [], YOffset = 0\<rparr>,
      lines = [],
      doneCh = [],
      ctx = None,
      cancel = False,
      logBuf = []\<rparr>"

subsection \<open>What the claims speak of\<close>

text \<open>The transitions of the stage and the input that takes each of them.\<close>

fun trigger :: "step \<Rightarrow> step \<Rightarrow> msg \<Rightarrow> bool" where
  "trigger stepEmail stepAPI (KeyMsg k) = (k = ''enter'')"
| "trigger stepAPI stepEmail (KeyMsg k) = (k = ''esc'')"
| "trigger stepAPI stepDomains (KeyMsg k) = (k = ''enter'')"
| "trigger stepDomains stepAPI (KeyMsg k) = (k = ''esc'')"
| "trigger stepDomains stepConfirm (KeyMsg k) = (k = ''ctrl+d'')"
| "trigger stepConfirm stepAPI (KeyMsg k) = (k = ''b'')"
| "trigger stepConfirm stepDomains (KeyMsg k) = (k = ''n'')"
| "trigger stepConfirm stepRunning (KeyMsg k) = (k = ''y'')"
| "trigger stepConfirm stepDone (KeyMsg k) = (k = ''y'')"
| "trigger stepRunning stepDone tickMsg = True"
| "trigger _ _ _ = False"


text \<open>A text of white-space runes only.\<close>

inductive blank :: "string \<Rightarrow> bool" where
  blank_Nil: "blank []"
| blank_rune: "w \<in> set spaceRunes \<Longrightarrow> blank r \<Longrightarrow> blank (w @ r)"

definition isStdin :: "effect \<Rightarrow> bool" where
  "isStdin x = (case x of WriteStdin s \<Rightarrow> True | CloseStdin \<Rightarrow> True | _ \<Rightarrow> False)"

definition isSendDone :: "effect \<Rightarrow> bool" where
  "isSendDone x = (case x of SendDone err \<Rightarrow> True | _ \<Rightarrow> False)"

text \<open>Sample values for the closed theorems.\<close>

definition env0 :: env where
  "env0 =
     \<lparr>uniLower = (\<lambda>s. s),
      render = (\<lambda>st s. s),
      tiFocus = (\<lambda>w. w),
      tiUpdate = (\<lambda>w mg. (w, None)),
      taFocus = (\<lambda>w. w),
      taUpdate = (\<lambda>w mg. (w, None)),
      spUpdate = (\<lambda>n mg. (n, None))\<rparr>"

definition fs0 :: fsys where
  "fs0 =
     \<lparr>statOf = (\<lambda>p. if p = ''/s.sh'' then Inr 0x1A4
                      else Inl (''stat '' @ p @ '': no such file or directory'')),
      chmodFails = (\<lambda>p. True)\<rparr>"

text \<open>A file system where \<^verbatim>\<open>/u.sh\<close> is a setuid file of mode 0644 that may be changed.\<close>

definition fs1 :: fsys where
  "fs1 =
     \<lparr>statOf = (\<lambda>p. if p = ''/u.sh'' then Inr 0x8001A4
                      else Inl (''stat '' @ p @ '': no such file or directory'')),
      chmodFails = (\<lambda>p. False)\<rparr>"

text \<open>
  A text input as the library has it for keys it has no binding for: the runes of the
  key are inserted. The key alt+q and the paste of the one character q (whose
  \<^verbatim>\<open>String()\<close> is \<^verbatim>\<open>[q]\<close>) both carry the rune q.
\<close>

definition insertsRunes :: "string \<Rightarrow> string" where
  "insertsRunes k = (if k = ''alt+q'' \<or> k = ''[q]'' then ''q'' else [])"

definition envQ :: env where
  "envQ =
     env0\<lparr>tiUpdate :=
            (\<lambda>w mg. case mg of
                       KeyMsg k \<Rightarrow> (w\<lparr>tiValue := tiValue w @ insertsRunes k\<rparr>, None)
                     | _ \<Rightarrow> (w, None)),
          taUpdate :=
            (\<lambda>w mg. case mg of
                       KeyMsg k \<Rightarrow> (w\<lparr>taValue := taValue w @ insertsRunes k\<rparr>, None)
                     | _ \<Rightarrow> (w, None))\<rparr>"

definition model0 :: model where
  "model0 =
     \<lparr>scriptPath = ''/s.sh'',
      email = \<lparr>tiValue = '' me@example.com'', tiState = 0\<rparr>,
      apiKey = \<lparr>tiValue = ''key '', tiState = 0\<rparr>,
      domArea = \<lparr>taValue = ''a.com'' @ [CHR 0x0A, CHR 0x0A], taState = 0\<rparr>,
      normalized = [],
      stage = stepEmail,
      spinner = 0,
      viewport = \<lparr>vpContent = [], YOffset = 0\<rparr>,
      lines = [],
      doneCh = [],
      ctx = None,
      cancel = False,
      logBuf = []\<rparr>"

definition po0 :: procOutcome where
  "po0 = \<lparr>stdinPipeOk = True, startErr = None, waitErr = None, procOutput = ''ok'' @ [CHR 0x0A]\<rparr>"

text \<open>A session in the Running stage, with one line of output waiting.\<close>

definition modelR :: model where
  "modelR = model0\<lparr>stage := stepRunning, ctx := Some False, cancel := True, lines := [''ok'']\<rparr>"


section \<open>Properties of the domain normalizer\<close>

subsection \<open>The expression matches what it has matched\<close>


lemma flush_Nil [simp]: "flush [] = []"
  by (simp add: flush_def)

lemma flush_Cons [simp]: "flush (c # cs) = [c # cs]"
  by (simp add: flush_def)

lemma not_isLabel_dot: "\<not> isLabel CHR ''.''"
  by (simp add: isLabel_def byte_def)

lemma isAlpha_isLabel: "isAlpha c \<Longrightarrow> isLabel c"
  by (simp add: isAlpha_def isLabel_def)

lemma reGroup_Some_iff:
  "reGroup s = Some (g, r) \<longleftrightarrow>
     (\<exists>l. l \<noteq> [] \<and> (\<forall>c\<in>set l. isLabel c) \<and> g = l @ ''.'' \<and> s = g @ r)"
proof
  assume a: "reGroup s = Some (g, r)"
  let ?l = "takeWhile isLabel s" and ?d = "dropWhile isLabel s"
  from a have l: "?l \<noteq> []" and d: "?d \<noteq> []" and h: "hd ?d = CHR ''.''"
    and g: "g = ?l @ ''.''" and r: "r = tl ?d"
    by (simp_all add: reGroup_def Let_def split: if_splits)
  from d h r have "?d = CHR ''.'' # r" by (cases ?d) simp_all
  then have "s = ?l @ CHR ''.'' # r" by (metis takeWhile_dropWhile_id)
  with l g show "\<exists>l. l \<noteq> [] \<and> (\<forall>c\<in>set l. isLabel c) \<and> g = l @ ''.'' \<and> s = g @ r"
    by (intro exI [of _ ?l]) (auto dest: set_takeWhileD)
next
  assume "\<exists>l. l \<noteq> [] \<and> (\<forall>c\<in>set l. isLabel c) \<and> g = l @ ''.'' \<and> s = g @ r"
  then obtain l where l: "l \<noteq> []" "\<forall>c\<in>set l. isLabel c" and g: "g = l @ ''.''" and s: "s = g @ r"
    by blast
  have s': "s = l @ CHR ''.'' # r" using g s by simp
  have tw: "takeWhile isLabel s = l"
    unfolding s' using l(2) by (simp add: takeWhile_append2 not_isLabel_dot)
  have dw: "dropWhile isLabel s = CHR ''.'' # r"
    unfolding s' using l(2) by (simp add: dropWhile_append2 not_isLabel_dot)
  show "reGroup s = Some (g, r)"
    using l(1) g by (simp add: reGroup_def tw dw)
qed

lemma reGroup_again: "reGroup s = Some (g, r) \<Longrightarrow> reGroup (g @ x) = Some (g, x)"
proof -
  assume "reGroup s = Some (g, r)"
  then obtain l where l: "l \<noteq> []" "\<forall>c\<in>set l. isLabel c" "g = l @ ''.''"
    unfolding reGroup_Some_iff by blast
  show ?thesis
    unfolding reGroup_Some_iff using l by blast
qed

lemma reFinal_Some_iff:
  "reFinal s = Some m \<longleftrightarrow> (m = takeWhile isAlpha s \<and> 2 \<le> length m)"
  by (auto simp: reFinal_def Let_def)

lemma reFinal_alpha: "reFinal s = Some m \<Longrightarrow> \<forall>c\<in>set m. isAlpha c"
  by (auto simp: reFinal_Some_iff dest: set_takeWhileD)

lemma reFinal_stable: "reFinal s = Some m \<Longrightarrow> reFinal m = Some m"
proof -
  assume f: "reFinal s = Some m"
  have t: "takeWhile isAlpha m = m"
    using reFinal_alpha [OF f] by simp
  from f have "2 \<le> length m" unfolding reFinal_Some_iff by blast
  then show ?thesis unfolding reFinal_Some_iff t by simp
qed

lemma reGroup_alpha: "\<forall>c\<in>set m. isAlpha c \<Longrightarrow> reGroup m = None"
proof -
  assume a: "\<forall>c\<in>set m. isAlpha c"
  then have "dropWhile isLabel m = []" by (auto intro: isAlpha_isLabel)
  then show ?thesis by (simp add: reGroup_def)
qed

text \<open>The ways \<open>reRest\<close> returns a match.\<close>

lemma reRest_cases:
  assumes "reRest s = Some m"
  obtains (final) "reFinal s = Some m"
  | (more) g r m' where "reGroup s = Some (g, r)" "reRest r = Some m'" "m = g @ m'"
  using assms by (subst (asm) reRest.simps) (auto split: option.splits)

lemma reRest_final: "reGroup s = None \<Longrightarrow> reRest s = reFinal s"
  by (subst reRest.simps) simp

lemma reRest_more: "reGroup s = Some (g, r) \<Longrightarrow> reRest r = Some m \<Longrightarrow> reRest s = Some (g @ m)"
  by (subst reRest.simps) simp


lemma reRest_stable: "reRest s = Some m \<Longrightarrow> reRest m = Some m"
proof (induction s arbitrary: m rule: reRest.induct)
  case (1 s)
  from "1.prems" show ?case
  proof (cases rule: reRest_cases)
    case final
    have "reGroup m = None" using reFinal_alpha [OF final] by (rule reGroup_alpha)
    then show ?thesis using reFinal_stable [OF final] by (simp add: reRest_final)
  next
    case (more g r m')
    have "reRest m' = Some m'" using "1.IH" more(1,2) by blast
    moreover have "reGroup (g @ m') = Some (g, m')" using more(1) by (rule reGroup_again)
    ultimately show ?thesis unfolding more(3) by (simp add: reRest_more)
  qed
qed

lemma reAt_Some_iff:
  "reAt s = Some m \<longleftrightarrow> (\<exists>g r m'. reGroup s = Some (g, r) \<and> reRest r = Some m' \<and> m = g @ m')"
  by (cases "reGroup s") (auto simp: reAt_def split: option.splits)

lemma reAt_stable: "reAt s = Some m \<Longrightarrow> reAt m = Some m"
proof -
  assume a: "reAt s = Some m"
  then obtain g r m' where g: "reGroup s = Some (g, r)" and r: "reRest r = Some m'" and m: "m = g @ m'"
    unfolding reAt_Some_iff by blast
  have "reGroup (g @ m') = Some (g, m')" using g by (rule reGroup_again)
  moreover have "reRest m' = Some m'" using r by (rule reRest_stable)
  ultimately show ?thesis unfolding m reAt_Some_iff by blast
qed

lemma reAt_nonempty: "reAt s = Some m \<Longrightarrow> m \<noteq> []"
  unfolding reAt_Some_iff reGroup_Some_iff by auto

lemma FindString_matches: "FindString t \<noteq> [] \<Longrightarrow> reAt (FindString t) = Some (FindString t)"
proof (induction t)
  case Nil
  then show ?case by simp
next
  case (Cons c cs)
  show ?case
  proof (cases "reAt (c # cs)")
    case None
    with Cons show ?thesis by simp
  next
    case (Some m)
    then show ?thesis by (simp add: reAt_stable)
  qed
qed

lemma FindString_fixed: "reAt m = Some m \<Longrightarrow> FindString m = m"
  by (cases m) (auto dest: reAt_nonempty)

lemma reRest_host: "reRest s = Some m \<Longrightarrow> \<forall>c\<in>set m. isHost c"
proof (induction s arbitrary: m rule: reRest.induct)
  case (1 s)
  from "1.prems" show ?case
  proof (cases rule: reRest_cases)
    case final
    then show ?thesis using reFinal_alpha [OF final] by (auto simp: isHost_def intro: isAlpha_isLabel)
  next
    case (more g r m')
    have "\<forall>c\<in>set m'. isHost c" using "1.IH" more(1,2) by blast
    moreover from more(1) have "\<forall>c\<in>set g. isHost c"
      unfolding reGroup_Some_iff by (auto simp: isHost_def)
    ultimately show ?thesis unfolding more(3) by auto
  qed
qed

lemma reAt_host: "reAt s = Some m \<Longrightarrow> \<forall>c\<in>set m. isHost c"
proof -
  assume "reAt s = Some m"
  then obtain g r m' where g: "reGroup s = Some (g, r)" and r: "reRest r = Some m'" and m: "m = g @ m'"
    unfolding reAt_Some_iff by blast
  from g have "\<forall>c\<in>set g. isHost c"
    unfolding reGroup_Some_iff by (auto simp: isHost_def)
  with reRest_host [OF r] show ?thesis unfolding m by auto
qed

lemma reGroup_www: "reGroup (''www.'' @ r) = Some (''www.'', r)"
  unfolding reGroup_Some_iff
  by (rule exI [of _ "''www''"]) (simp add: isLabel_def byte_def)

lemma reAt_strip_www:
  assumes m: "reAt (''www.'' @ r) = Some (''www.'' @ r)" and dot: "CHR ''.'' \<in> set r"
  shows "reAt r = Some r"
proof -
  from m obtain g r' m' where g: "reGroup (''www.'' @ r) = Some (g, r')"
    and r': "reRest r' = Some m'" and e: "''www.'' @ r = g @ m'"
    unfolding reAt_Some_iff by blast
  from g have "g = ''www.''" "r' = r" unfolding reGroup_www by simp_all
  with r' e have rr: "reRest r = Some r" by simp
  then show ?thesis
  proof (cases rule: reRest_cases)
    case final
    from reFinal_alpha [OF this] dot have "isAlpha CHR ''.''" by blast
    then show ?thesis by (simp add: isAlpha_def byte_def)
  next
    case (more g r m')
    then show ?thesis unfolding reAt_Some_iff by blast
  qed
qed


subsection \<open>A joined list of host names is read back as it is\<close>

lemma set_Join: "set (Join xs sep) \<subseteq> (\<Union>x\<in>set xs. set x) \<union> set sep"
  by (induction xs sep rule: Join.induct) auto

lemma isHost_bytes: "isHost c \<Longrightarrow> byte c < 128 \<and> lowerByte c = c"
  by (auto simp: isHost_def isLabel_def lowerByte_def byte_def)

lemma isSep_bytes: "isSep c \<Longrightarrow> byte c < 128 \<and> lowerByte c = c"
  by (auto simp: isSep_def lowerByte_def byte_def)

lemma ToLower_plain:
  assumes "\<forall>c\<in>set s. isHost c \<or> isSep c"
  shows "ToLower uni s = s"
proof -
  from assms have "\<forall>c\<in>set s. byte c < 128 \<and> lowerByte c = c"
    using isHost_bytes isSep_bytes by blast
  then have "isASCII s" and "map lowerByte s = s"
    by (simp_all add: isASCII_def list_all_iff map_idI)
  then show ?thesis by (simp add: ToLower_def)
qed

lemma prefix_set: "prefix p s \<Longrightarrow> set p \<subseteq> set s"
  by (auto simp: prefix_def)

lemma repls_last:
  "(old, new) \<in> set repls \<Longrightarrow>
     old \<noteq> [] \<and> last old \<in> {CHR 0x09, CHR '','', CHR '';'', CHR ''|'', CHR 0x0D, CHR ''/''}"
  by (auto simp: repls_def)

lemma replaced_not_plain:
  "c \<in> {CHR 0x09, CHR '','', CHR '';'', CHR ''|'', CHR 0x0D, CHR ''/''} \<Longrightarrow> \<not> (isHost c \<or> isSep c)"
  by (auto simp: isHost_def isLabel_def isSep_def byte_def)

lemma repls_no_match:
  assumes "\<forall>c\<in>set s. isHost c \<or> isSep c"
  shows "find (\<lambda>(old, new). old \<noteq> [] \<and> prefix old s) repls = None"
proof -
  have "\<not> prefix old s" if "(old, new) \<in> set repls" for old new
  proof
    assume "prefix old s"
    then have sub: "set old \<subseteq> set s" by (rule prefix_set)
    from repls_last [OF that] have "last old \<in> set old"
      and "\<not> (isHost (last old) \<or> isSep (last old))"
      using replaced_not_plain by simp_all
    with sub assms show False by blast
  qed
  then show ?thesis unfolding find_None_iff by blast
qed

lemma Replace_plain: "\<forall>c\<in>set s. isHost c \<or> isSep c \<Longrightarrow> Replace repls s = s"
proof (induction s)
  case Nil
  then show ?case by simp
next
  case (Cons c cs)
  have "find (\<lambda>(old, new). old \<noteq> [] \<and> prefix old (c # cs)) repls = None"
    using Cons.prems by (rule repls_no_match)
  moreover have "Replace repls cs = cs" using Cons by simp
  ultimately show ?case by simp
qed

lemma spaceRunes_heads:
  "w \<in> set spaceRunes \<Longrightarrow> w \<noteq> [] \<and> \<not> isHost (hd w)"
  by (auto simp: spaceRunes_def isHost_def isLabel_def byte_def)

lemma spaceAtStart_host: "isHost c \<Longrightarrow> spaceAtStart (c # cs) = None"
proof -
  assume c: "isHost c"
  have "\<not> prefix w (c # cs)" if "w \<in> set spaceRunes" for w
  proof
    assume p: "prefix w (c # cs)"
    from spaceRunes_heads [OF that] obtain a as where w: "w = a # as" and "\<not> isHost a"
      by (cases w) auto
    with p c show False by simp
  qed
  then show ?thesis unfolding spaceAtStart_def find_None_iff by blast
qed

lemma spaceAtStart_newline: "spaceAtStart (CHR 0x0A # cs) = Some [CHR 0x0A]"
  by (simp add: spaceAtStart_def spaceRunes_def)

lemma spaceAtStart_blank: "spaceAtStart (CHR '' '' # cs) = Some '' ''"
  by (simp add: spaceAtStart_def spaceRunes_def)

lemma spaceAtStart_sep: "isSep c \<Longrightarrow> spaceAtStart (c # cs) = Some [c]"
  using spaceAtStart_newline spaceAtStart_blank by (auto simp: isSep_def)

lemma fieldsFrom_host:
  "\<forall>c\<in>set x. isHost c \<Longrightarrow> fieldsFrom cur (x @ rest) = fieldsFrom (cur @ x) rest"
  by (induction x arbitrary: cur) (simp_all add: spaceAtStart_host)

lemma fieldsFrom_sep:
  "\<forall>c\<in>set sep. isSep c \<Longrightarrow> sep \<noteq> [] \<Longrightarrow>
     fieldsFrom cur (sep @ rest) = flush cur @ fieldsFrom [] rest"
proof (induction sep arbitrary: cur)
  case Nil
  then show ?case by simp
next
  case (Cons c sep)
  from Cons.prems have c: "spaceAtStart (c # sep @ rest) = Some [c]"
    by (simp add: spaceAtStart_sep)
  show ?case
  proof (cases "sep = []")
    case True
    with c show ?thesis by simp
  next
    case False
    with Cons have "fieldsFrom [] (sep @ rest) = flush [] @ fieldsFrom [] rest" by simp
    with c show ?thesis by simp
  qed
qed

lemma Fields_Join:
  "\<forall>c\<in>set sep. isSep c \<Longrightarrow> sep \<noteq> [] \<Longrightarrow>
   \<forall>x\<in>set xs. x \<noteq> [] \<and> (\<forall>c\<in>set x. isHost c) \<Longrightarrow> fieldsFrom [] (Join xs sep) = xs"
proof (induction xs sep rule: Join.induct)
  case (1 sep)
  then show ?case by simp
next
  case (2 x sep)
  then have "fieldsFrom [] (x @ []) = fieldsFrom ([] @ x) []"
    by (intro fieldsFrom_host) simp
  with 2 show ?case by (simp add: flush_def)
next
  case (3 x y ys sep')
  have "fieldsFrom [] (x @ sep' @ Join (y # ys) sep') = fieldsFrom ([] @ x) (sep' @ Join (y # ys) sep')"
    using 3 by (intro fieldsFrom_host) simp
  also have "\<dots> = flush x @ fieldsFrom [] (Join (y # ys) sep')"
    using 3 by (simp add: fieldsFrom_sep)
  finally show ?case using 3 by (simp add: flush_def)
qed


lemma normalizeDomains_plain:
  "\<forall>c\<in>set t. isHost c \<or> isSep c \<Longrightarrow> normalizeDomains uni t = collect {} [] (Fields t)"
  by (simp add: normalizeDomains_def ToLower_plain Replace_plain)

subsection \<open>The loop\<close>

lemma collect_skip: "FindString tok = [] \<Longrightarrow> collect seen out (tok # toks) = collect seen out toks"
  by simp

lemma collect_old:
  "FindString tok \<noteq> [] \<Longrightarrow> TrimPrefix (FindString tok) ''www.'' \<in> seen \<Longrightarrow>
     collect seen out (tok # toks) = collect seen out toks"
  by (simp add: Let_def)

lemma collect_new:
  "FindString tok \<noteq> [] \<Longrightarrow> TrimPrefix (FindString tok) ''www.'' \<notin> seen \<Longrightarrow>
     collect seen out (tok # toks) =
       collect (insert (TrimPrefix (FindString tok) ''www.'') seen)
         (out @ [TrimPrefix (FindString tok) ''www.'']) toks"
  by (simp add: Let_def)

lemma collect_stripped:
  "\<forall>e\<in>set out. stripped e \<Longrightarrow> \<forall>e\<in>set (collect seen out toks). stripped e"
proof (induction toks arbitrary: seen out)
  case Nil
  then show ?case by simp
next
  case (Cons tok toks)
  let ?e = "TrimPrefix (FindString tok) ''www.''"
  consider (skip) "FindString tok = []" | (old) "FindString tok \<noteq> []" "?e \<in> seen"
    | (new) "FindString tok \<noteq> []" "?e \<notin> seen" by blast
  then show ?case
  proof cases
    case skip
    show ?thesis unfolding collect_skip [OF skip] using Cons.prems by (rule Cons.IH)
  next
    case old
    show ?thesis unfolding collect_old [OF old] using Cons.prems by (rule Cons.IH)
  next
    case new
    from new(1) have "stripped ?e"
      unfolding stripped_def using FindString_matches by blast
    with Cons.prems have "\<forall>e\<in>set (out @ [?e]). stripped e" by simp
    then show ?thesis unfolding collect_new [OF new] by (rule Cons.IH)
  qed
qed

lemma collect_distinct:
  "distinct out \<Longrightarrow> seen = set out \<Longrightarrow> distinct (collect seen out toks)"
proof (induction toks arbitrary: seen out)
  case Nil
  then show ?case by simp
next
  case (Cons tok toks)
  let ?e = "TrimPrefix (FindString tok) ''www.''"
  consider (skip) "FindString tok = []" | (old) "FindString tok \<noteq> []" "?e \<in> seen"
    | (new) "FindString tok \<noteq> []" "?e \<notin> seen" by blast
  then show ?case
  proof cases
    case skip
    show ?thesis unfolding collect_skip [OF skip] using Cons.prems by (rule Cons.IH)
  next
    case old
    show ?thesis unfolding collect_old [OF old] using Cons.prems by (rule Cons.IH)
  next
    case new
    with Cons.prems have "distinct (out @ [?e])" and "insert ?e seen = set (out @ [?e])"
      by simp_all
    then show ?thesis unfolding collect_new [OF new] by (rule Cons.IH)
  qed
qed

lemma collect_fixed:
  "seen = set out \<Longrightarrow> distinct (out @ xs) \<Longrightarrow>
   \<forall>x\<in>set xs. reAt x = Some x \<and> \<not> prefix ''www.'' x \<Longrightarrow>
   collect seen out xs = out @ xs"
proof (induction xs arbitrary: seen out)
  case Nil
  then show ?case by simp
next
  case (Cons x xs)
  from Cons.prems have rx: "reAt x = Some x" and nw: "\<not> prefix ''www.'' x" by simp_all
  have f: "FindString x = x" using rx by (rule FindString_fixed)
  have ne: "x \<noteq> []" using rx by (rule reAt_nonempty)
  have t: "TrimPrefix x ''www.'' = x" using nw by (simp add: TrimPrefix_def)
  have fresh: "x \<notin> seen" using Cons.prems by simp
  have "collect (insert x seen) (out @ [x]) xs = (out @ [x]) @ xs"
    using Cons.prems by (intro Cons.IH) simp_all
  moreover have "collect seen out (x # xs) = collect (insert x seen) (out @ [x]) xs"
    using collect_new [of x seen out xs] f ne t fresh by simp
  ultimately show ?case by simp
qed

lemma stripped_stable:
  assumes "stripped e" "CHR ''.'' \<in> set e" "\<not> prefix ''www.'' e"
  shows "reAt e = Some e"
proof -
  from assms(1) obtain m where m: "reAt m = Some m" and e: "e = TrimPrefix m ''www.''"
    unfolding stripped_def by blast
  show ?thesis
  proof (cases "prefix ''www.'' m")
    case True
    then have "m = ''www.'' @ e" unfolding e TrimPrefix_def prefix_def by auto
    with m have "reAt (''www.'' @ e) = Some (''www.'' @ e)" by simp
    then show ?thesis using assms(2) by (rule reAt_strip_www)
  next
    case False
    with e m show ?thesis by (simp add: TrimPrefix_def)
  qed
qed

lemma normalizeDomains_stripped: "\<forall>e\<in>set (normalizeDomains uni s). stripped e"
  unfolding normalizeDomains_def by (rule collect_stripped) simp

lemma normalizeDomains_distinct: "distinct (normalizeDomains uni s)"
  unfolding normalizeDomains_def by (rule collect_distinct) simp_all

subsection \<open>The claims about the normalizer\<close>

text \<open>
  C8. The normalizer maps \<^verbatim>\<open>"B.com, a.com www.a.com"\<close> to \<^verbatim>\<open>["b.com", "a.com"]\<close>:
  lowercased, \<^verbatim>\<open>www.\<close> stripped, in first-seen order, the duplicate removed.
\<close>

theorem normalizeDomains_example:
  "normalizeDomains uni ''B.com, a.com www.a.com'' = [''b.com'', ''a.com'']"
  by code_simp

text \<open>
  C4 (amended). Normalizing the joined output of the normalizer gives the output again,
  for a separator of newlines or spaces, whenever every element of the output still
  contains a dot and does not begin with \<^verbatim>\<open>www.\<close> (the loop strips one leading \<^verbatim>\<open>www.\<close>
  only, and what is left of \<^verbatim>\<open>www.com\<close> is no host name).
\<close>

theorem normalizeDomains_idempotent:
  assumes sep: "sep \<noteq> []" "\<forall>c\<in>set sep. c = CHR 0x0A \<or> c = CHR '' ''"
    and out: "\<forall>e\<in>set (normalizeDomains uni s). CHR ''.'' \<in> set e \<and> \<not> prefix ''www.'' e"
  shows "normalizeDomains uni (Join (normalizeDomains uni s) sep) = normalizeDomains uni s"
proof -
  define out where "out = normalizeDomains uni s"
  have st: "\<forall>e\<in>set out. reAt e = Some e \<and> \<not> prefix ''www.'' e"
    using normalizeDomains_stripped [of uni s] assms(3) stripped_stable
    unfolding out_def by blast
  have dist: "distinct ([] @ out)"
    unfolding out_def using normalizeDomains_distinct by simp
  have host: "\<forall>e\<in>set out. e \<noteq> [] \<and> (\<forall>c\<in>set e. isHost c)"
    using st reAt_nonempty reAt_host by blast
  have sep': "\<forall>c\<in>set sep. isSep c" using sep(2) by (simp add: isSep_def)
  have chars: "\<forall>c\<in>set (Join out sep). isHost c \<or> isSep c"
    using set_Join [of out sep] host sep' by blast
  have "normalizeDomains uni (Join out sep) = collect {} [] (Fields (Join out sep))"
    using chars by (rule normalizeDomains_plain)
  also have "Fields (Join out sep) = out"
    unfolding Fields_def using sep' sep(1) host by (rule Fields_Join)
  also have "collect {} [] out = [] @ out"
    using dist st by (intro collect_fixed) simp_all
  finally show ?thesis unfolding out_def by simp
qed

theorem normalizeDomains_idempotent_witness:
  "normalizeDomains (\<lambda>s. s) ''B.com, www.a.com'' = [''b.com'', ''a.com''] \<and>
   normalizeDomains (\<lambda>s. s) (Join (normalizeDomains (\<lambda>s. s) ''B.com, www.a.com'') [CHR 0x0A])
     = [''b.com'', ''a.com'']"
proof -
  have n: "normalizeDomains (\<lambda>s. s) ''B.com, www.a.com'' = [''b.com'', ''a.com'']"
    by code_simp
  have h: "\<forall>e\<in>set (normalizeDomains (\<lambda>s. s) ''B.com, www.a.com''). CHR ''.'' \<in> set e \<and> \<not> prefix ''www.'' e"
    unfolding n by simp
  have "normalizeDomains (\<lambda>s. s) (Join (normalizeDomains (\<lambda>s. s) ''B.com, www.a.com'') [CHR 0x0A])
          = normalizeDomains (\<lambda>s. s) ''B.com, www.a.com''"
    by (rule normalizeDomains_idempotent [OF _ _ h]) simp_all
  then show ?thesis unfolding n by simp
qed

text \<open>
  C4 as it is written fails: \<^verbatim>\<open>"www.com"\<close> is normalized to \<^verbatim>\<open>["com"]\<close>, and \<^verbatim>\<open>"com"\<close>
  has no match, so normalizing the joined output gives the empty list.
\<close>

theorem normalizeDomains_not_idempotent:
  "normalizeDomains (\<lambda>s. s) ''www.com'' = [''com''] \<and>
   normalizeDomains (\<lambda>s. s) (Join (normalizeDomains (\<lambda>s. s) ''www.com'') [CHR 0x0A]) = [] \<and>
   normalizeDomains (\<lambda>s. s) (Join (normalizeDomains (\<lambda>s. s) ''www.com'') '' '') = []"
  by code_simp


section \<open>Properties of the session\<close>

subsection \<open>The drain loop and the log\<close>

lemma stage_appendLogLine [simp]: "stage (appendLogLine m s) = stage m"
  by (simp add: appendLogLine_def Let_def)

lemma doneCh_appendLogLine [simp]: "doneCh (appendLogLine m s) = doneCh m"
  by (simp add: appendLogLine_def Let_def)

lemma stage_drain [simp]: "stage (drain n m) = stage m"
  by (induction n m rule: drain.induct) (simp_all split: list.splits)

lemma doneCh_drain [simp]: "doneCh (drain n m) = doneCh m"
  by (induction n m rule: drain.induct) (simp_all split: list.splits)

subsection \<open>Quitting, and the keys that reach the widgets\<close>

text \<open>
  C9 (amended). In the Email, API and Domains stages a key whose string is exactly \<^verbatim>\<open>q\<close> or
  \<^verbatim>\<open>ctrl+c\<close> quits the session: the model is returned as it was, so no field has changed,
  and the result is the same whatever the widgets would do with the key, so the key has
  not reached them. Every other key that the stage does not handle itself (\<^verbatim>\<open>enter\<close> in
  Email; \<^verbatim>\<open>esc\<close> and \<^verbatim>\<open>enter\<close> in API; \<^verbatim>\<open>esc\<close> and \<^verbatim>\<open>ctrl+d\<close> in Domains) is given to the
  widget of the stage, and the field becomes what the widget makes of it.
\<close>

theorem quit_keys_and_widget_keys:
  "(stage m \<in> {stepEmail, stepAPI, stepDomains} \<longrightarrow> k = ''q'' \<or> k = ''ctrl+c'' \<longrightarrow>
      Update e fs m (KeyMsg k) = ((m, Some Quit), fs)) \<and>
   (stage m = stepEmail \<longrightarrow> k \<notin> {''q'', ''ctrl+c'', ''enter''} \<longrightarrow>
      Update e fs m (KeyMsg k) =
        ((m\<lparr>email := fst (tiUpdate e (email m) (KeyMsg k))\<rparr>, snd (tiUpdate e (email m) (KeyMsg k))), fs)) \<and>
   (stage m = stepAPI \<longrightarrow> k \<notin> {''q'', ''ctrl+c'', ''esc'', ''enter''} \<longrightarrow>
      Update e fs m (KeyMsg k) =
        ((m\<lparr>apiKey := fst (tiUpdate e (apiKey m) (KeyMsg k))\<rparr>, snd (tiUpdate e (apiKey m) (KeyMsg k))), fs)) \<and>
   (stage m = stepDomains \<longrightarrow> k \<notin> {''q'', ''ctrl+c'', ''esc'', ''ctrl+d''} \<longrightarrow>
      Update e fs m (KeyMsg k) =
        ((m\<lparr>domArea := fst (taUpdate e (domArea m) (KeyMsg k))\<rparr>, snd (taUpdate e (domArea m) (KeyMsg k))), fs))"
proof (intro conjI impI)
  assume "stage m \<in> {stepEmail, stepAPI, stepDomains}" and "k = ''q'' \<or> k = ''ctrl+c''"
  then show "Update e fs m (KeyMsg k) = ((m, Some Quit), fs)"
    by (auto simp: Update_def updateEmail_def updateAPI_def updateDomains_def isQuit_def)
next
  assume "stage m = stepEmail" and "k \<notin> {''q'', ''ctrl+c'', ''enter''}"
  then show "Update e fs m (KeyMsg k) =
      ((m\<lparr>email := fst (tiUpdate e (email m) (KeyMsg k))\<rparr>, snd (tiUpdate e (email m) (KeyMsg k))), fs)"
    by (simp add: Update_def updateEmail_def emailWidget_def isQuit_def split: prod.splits)
next
  assume "stage m = stepAPI" and "k \<notin> {''q'', ''ctrl+c'', ''esc'', ''enter''}"
  then show "Update e fs m (KeyMsg k) =
      ((m\<lparr>apiKey := fst (tiUpdate e (apiKey m) (KeyMsg k))\<rparr>, snd (tiUpdate e (apiKey m) (KeyMsg k))), fs)"
    by (simp add: Update_def updateAPI_def apiKeyWidget_def isQuit_def split: prod.splits)
next
  assume "stage m = stepDomains" and "k \<notin> {''q'', ''ctrl+c'', ''esc'', ''ctrl+d''}"
  then show "Update e fs m (KeyMsg k) =
      ((m\<lparr>domArea := fst (taUpdate e (domArea m) (KeyMsg k))\<rparr>, snd (taUpdate e (domArea m) (KeyMsg k))), fs)"
    by (simp add: Update_def updateDomains_def domAreaWidget_def isQuit_def split: prod.splits)
qed

theorem quit_keys_and_widget_keys_witness:
  "Update envQ fs0 model0 (KeyMsg ''q'') = ((model0, Some Quit), fs0) \<and>
   Update envQ fs0 (model0\<lparr>stage := stepDomains\<rparr>) (KeyMsg ''ctrl+c'')
     = ((model0\<lparr>stage := stepDomains\<rparr>, Some Quit), fs0) \<and>
   Update envQ fs0 (model0\<lparr>stage := stepAPI\<rparr>) (KeyMsg ''[q]'')
     = ((model0\<lparr>stage := stepAPI, apiKey := \<lparr>tiValue = ''key q'', tiState = 0\<rparr>\<rparr>, None), fs0)"
proof -
  have s: "stage model0 \<in> {stepEmail, stepAPI, stepDomains}"
    "stage (model0\<lparr>stage := stepDomains\<rparr>) \<in> {stepEmail, stepAPI, stepDomains}"
    "stage (model0\<lparr>stage := stepAPI\<rparr>) = stepAPI"
    by (simp_all add: model0_def)
  have k: "''[q]'' \<notin> {''q'', ''ctrl+c'', ''esc'', ''enter''}" by simp
  have "Update envQ fs0 model0 (KeyMsg ''q'') = ((model0, Some Quit), fs0)"
    using quit_keys_and_widget_keys [of model0 "''q''" envQ fs0] s(1) by blast
  moreover have "Update envQ fs0 (model0\<lparr>stage := stepDomains\<rparr>) (KeyMsg ''ctrl+c'')
     = ((model0\<lparr>stage := stepDomains\<rparr>, Some Quit), fs0)"
    using quit_keys_and_widget_keys [of "model0\<lparr>stage := stepDomains\<rparr>" "''ctrl+c''" envQ fs0] s(2)
    by blast
  moreover have "Update envQ fs0 (model0\<lparr>stage := stepAPI\<rparr>) (KeyMsg ''[q]'')
     = ((model0\<lparr>stage := stepAPI, apiKey := \<lparr>tiValue = ''key q'', tiState = 0\<rparr>\<rparr>, None), fs0)"
    using quit_keys_and_widget_keys [of "model0\<lparr>stage := stepAPI\<rparr>" "''[q]''" envQ fs0] s(3) k
    by (simp add: envQ_def env0_def insertsRunes_def model0_def)
  ultimately show ?thesis by simp
qed

text \<open>
  C9 as it is written fails: the key alt+q and the paste of the single character q are
  not the string \<^verbatim>\<open>q\<close>, so they reach the text input, which inserts the rune: a single q
  is typed into the email field and into the domains field.
\<close>

theorem alt_q_types_q:
  "tiValue (email model0) = '' me@example.com'' \<and>
   tiValue (email (fst (fst (Update envQ fs0 model0 (KeyMsg ''alt+q''))))) = '' me@example.comq'' \<and>
   tiValue (email (fst (fst (Update envQ fs0 model0 (KeyMsg ''[q]''))))) = '' me@example.comq'' \<and>
   taValue (domArea (fst (fst (Update envQ fs0 (model0\<lparr>stage := stepDomains\<rparr>) (KeyMsg ''alt+q'')))))
     = ''a.com'' @ [CHR 0x0A, CHR 0x0A] @ ''q''"
  by (simp add: Update_def updateEmail_def updateDomains_def emailWidget_def domAreaWidget_def
      isQuit_def envQ_def env0_def insertsRunes_def model0_def)


subsection \<open>Transitions of the stage\<close>

lemma stage_emailWidget [simp]: "stage (fst (emailWidget e m mg)) = stage m"
  by (simp add: emailWidget_def split: prod.splits)

lemma stage_apiKeyWidget [simp]: "stage (fst (apiKeyWidget e m mg)) = stage m"
  by (simp add: apiKeyWidget_def split: prod.splits)

lemma stage_domAreaWidget [simp]: "stage (fst (domAreaWidget e m mg)) = stage m"
  by (simp add: domAreaWidget_def split: prod.splits)

lemma updateEmail_stage:
  "stage m = stepEmail \<Longrightarrow>
     stage (fst (updateEmail e m mg)) = stepEmail \<or> trigger stepEmail (stage (fst (updateEmail e m mg))) mg"
  by (cases mg) (simp_all add: updateEmail_def)

lemma updateAPI_stage:
  "stage m = stepAPI \<Longrightarrow>
     stage (fst (updateAPI e m mg)) = stepAPI \<or> trigger stepAPI (stage (fst (updateAPI e m mg))) mg"
  by (cases mg) (simp_all add: updateAPI_def)

lemma updateDomains_stage:
  "stage m = stepDomains \<Longrightarrow>
     stage (fst (updateDomains e m mg)) = stepDomains \<or>
     trigger stepDomains (stage (fst (updateDomains e m mg))) mg"
  by (cases mg) (simp_all add: updateDomains_def)

lemma confirmRun_stage:
  "stage (fst (fst (confirmRun e fs m))) = stepDone \<or> stage (fst (fst (confirmRun e fs m))) = stepRunning"
  by (simp add: confirmRun_def Let_def split: prod.splits option.splits)

lemma updateConfirm_stage:
  "stage m = stepConfirm \<Longrightarrow>
     stage (fst (fst (updateConfirm e fs m mg))) = stepConfirm \<or>
     trigger stepConfirm (stage (fst (fst (updateConfirm e fs m mg)))) mg"
proof (cases mg)
  case (KeyMsg k)
  assume "stage m = stepConfirm"
  then show ?thesis
    using confirmRun_stage [of e fs m] by (auto simp: updateConfirm_def KeyMsg)
qed (simp_all add: updateConfirm_def)

lemma stage_finish:
  "stage (fst (finish e m)) = stage m \<or> stage (fst (finish e m)) = stepDone"
  by (simp add: finish_def Let_def split: list.splits)

lemma updateRunning_stage:
  "stage m = stepRunning \<Longrightarrow>
     stage (fst (updateRunning e m mg)) = stepRunning \<or>
     trigger stepRunning (stage (fst (updateRunning e m mg))) mg"
proof (cases mg)
  case tickMsg
  assume "stage m = stepRunning"
  then show ?thesis
    using stage_finish [of e "drain 200 m"] by (auto simp: updateRunning_def tickMsg)
qed (simp_all add: updateRunning_def split: prod.splits)

lemma updateDone_stage: "stage (fst (updateDone m mg)) = stage m"
  by (cases mg) (simp_all add: updateDone_def)

text \<open>
  C6. One step of \<^verbatim>\<open>Update\<close> leaves the stage as it is or takes one of the transitions of
  the table, on the input of that transition: Email to API, API to Email or Domains,
  Domains to API or Confirm, Confirm to API, Domains, Running or Done, Running to Done.
  Quitting returns a command and does not change the stage. The stage is a value of the
  enumeration by its type.
\<close>

theorem stage_transitions:
  "stage (fst (fst (Update e fs m mg))) = stage m \<or>
   trigger (stage m) (stage (fst (fst (Update e fs m mg)))) mg"
proof (cases "stage m")
  case stepEmail
  then show ?thesis using updateEmail_stage [of m e mg] by (simp add: Update_def)
next
  case stepAPI
  then show ?thesis using updateAPI_stage [of m e mg] by (simp add: Update_def)
next
  case stepDomains
  then show ?thesis using updateDomains_stage [of m e mg] by (simp add: Update_def)
next
  case stepConfirm
  then show ?thesis using updateConfirm_stage [of m e fs mg] by (simp add: Update_def)
next
  case stepRunning
  then show ?thesis using updateRunning_stage [of m e mg] by (simp add: Update_def)
next
  case stepDone
  then show ?thesis using updateDone_stage [of m mg] by (simp add: Update_def)
qed

theorem stage_transitions_witness:
  "stage (fst (fst (Update env0 fs0 model0 (KeyMsg ''enter'')))) = stepAPI \<and>
   trigger stepEmail stepAPI (KeyMsg ''enter'')"
proof -
  have s: "stage (fst (fst (Update env0 fs0 model0 (KeyMsg ''enter'')))) = stepAPI"
    by code_simp
  have "stage model0 = stepEmail" by (simp add: model0_def)
  with stage_transitions [of env0 fs0 model0 "KeyMsg ''enter''"] s show ?thesis by simp
qed


subsection \<open>Validation of the executable\<close>

lemma assertExecutable_None_iff:
  "fst (assertExecutable fs p) = None \<longleftrightarrow>
     p \<noteq> [] \<and> (case statOf fs p of Inl err \<Rightarrow> False | Inr mode \<Rightarrow> mode AND ModeDir = 0)"
  by (simp add: assertExecutable_def split: sum.splits)

lemma assertExecutable_fsys:
  "snd (assertExecutable fs p) =
     (case statOf fs p of
        Inl err \<Rightarrow> fs
      | Inr mode \<Rightarrow>
          if p \<noteq> [] \<and> mode AND ModeDir = 0 \<and> mode AND 0x49 = 0 \<and> \<not> chmodFails fs p
          then fs\<lparr>statOf := (statOf fs)(p := Inr ((mode AND ModeType) OR 0x1ED))\<rparr>
          else fs)"
  by (simp add: assertExecutable_def Chmod_def split: sum.splits)

lemma Update_confirm_y:
  assumes "stage m = stepConfirm"
  shows "Update e fs m (KeyMsg ''y'') =
     (case fst (assertExecutable fs (scriptPath m)) of
        Some err \<Rightarrow>
          (m\<lparr>viewport := SetContent (render e errStyle err) (viewport m), stage := stepDone\<rparr>, None)
      | None \<Rightarrow>
          (m\<lparr>stage := stepRunning, viewport := SetContent [] (viewport m),
              ctx := Some False, cancel := True\<rparr>,
           Some (Batch [ProcessCmd (m\<lparr>stage := stepRunning, viewport := SetContent [] (viewport m),
                                        ctx := Some False, cancel := True\<rparr>), nextTick])),
      snd (assertExecutable fs (scriptPath m)))"
proof -
  obtain r fs' where a: "assertExecutable fs (scriptPath m) = (r, fs')"
    by (cases "assertExecutable fs (scriptPath m)")
  show ?thesis
    using assms a
    by (cases r) (simp_all add: Update_def updateConfirm_def confirmRun_def isQuit_def Let_def)
qed

text \<open>
  C5 (amended). \<^verbatim>\<open>assertExecutable\<close> returns an error exactly when the path is empty,
  \<^verbatim>\<open>os.Stat\<close> fails on it (the file does not exist, for one) or it is a directory; in
  every other case it succeeds. When it succeeds on a file with no executable bit it
  has called \<^verbatim>\<open>Chmod(p, 0755)\<close> and dropped the outcome: if the call can succeed the file
  has mode 0755 afterwards (its kind kept), if it fails the file is as before and the
  validation has succeeded all the same; in every other case the file system is not
  touched. On \<^verbatim>\<open>y\<close> in the Confirm stage an error ends the attempt: the message goes to
  the viewport, the stage is Done and no command is returned, so no process is started;
  without an error the stage is Running and the process and the timer are started.
\<close>

theorem assertExecutable_validation:
  "(fst (assertExecutable fs p) \<noteq> None) =
     (p = [] \<or> (case statOf fs p of Inl err \<Rightarrow> True | Inr mode \<Rightarrow> mode AND ModeDir \<noteq> 0)) \<and>
   snd (assertExecutable fs p) =
     (case statOf fs p of
        Inl err \<Rightarrow> fs
      | Inr mode \<Rightarrow>
          if p \<noteq> [] \<and> mode AND ModeDir = 0 \<and> mode AND 0x49 = 0 \<and> \<not> chmodFails fs p
          then fs\<lparr>statOf := (statOf fs)(p := Inr ((mode AND ModeType) OR 0x1ED))\<rparr>
          else fs) \<and>
   (stage m = stepConfirm \<longrightarrow>
      Update e fs m (KeyMsg ''y'') =
        (case fst (assertExecutable fs (scriptPath m)) of
           Some err \<Rightarrow>
             (m\<lparr>viewport := SetContent (render e errStyle err) (viewport m), stage := stepDone\<rparr>, None)
         | None \<Rightarrow>
             (m\<lparr>stage := stepRunning, viewport := SetContent [] (viewport m),
                 ctx := Some False, cancel := True\<rparr>,
              Some (Batch [ProcessCmd (m\<lparr>stage := stepRunning, viewport := SetContent [] (viewport m),
                                           ctx := Some False, cancel := True\<rparr>), nextTick])),
         snd (assertExecutable fs (scriptPath m))))"
proof (intro conjI impI)
  show "(fst (assertExecutable fs p) \<noteq> None) =
     (p = [] \<or> (case statOf fs p of Inl err \<Rightarrow> True | Inr mode \<Rightarrow> mode AND ModeDir \<noteq> 0))"
    using assertExecutable_None_iff [of fs p] by (auto split: sum.splits)
qed (rule assertExecutable_fsys, rule Update_confirm_y)

theorem assertExecutable_validation_witness:
  "Update env0 fs0 (model0\<lparr>stage := stepConfirm, scriptPath := ''/t.sh''\<rparr>) (KeyMsg ''y'') =
     ((model0\<lparr>stage := stepConfirm, scriptPath := ''/t.sh'',
         viewport := SetContent ''script not found at /t.sh: stat /t.sh: no such file or directory''
           (viewport model0), stage := stepDone\<rparr>, None), fs0) \<and>
   fst (fst (Update env0 fs1 (model0\<lparr>stage := stepConfirm, scriptPath := ''/u.sh''\<rparr>) (KeyMsg ''y'')))
     = model0\<lparr>stage := stepRunning, scriptPath := ''/u.sh'', viewport := SetContent [] (viewport model0),
         ctx := Some False, cancel := True\<rparr> \<and>
   statOf (snd (Update env0 fs1 (model0\<lparr>stage := stepConfirm, scriptPath := ''/u.sh''\<rparr>) (KeyMsg ''y'')))
     ''/u.sh'' = Inr 0x1ED"
proof -
  let ?mt = "model0\<lparr>stage := stepConfirm, scriptPath := ''/t.sh''\<rparr>"
  let ?mu = "model0\<lparr>stage := stepConfirm, scriptPath := ''/u.sh''\<rparr>"
  have m: "(0x8001A4 :: 32 word) AND ModeDir = 0" "(0x8001A4 :: 32 word) AND 0x49 = 0"
    "((0x8001A4 :: 32 word) AND ModeType) OR 0x1ED = 0x1ED"
    by (simp_all add: ModeDir_def ModeType_def)
  have t: "stage ?mt = stepConfirm" and u: "stage ?mu = stepConfirm" by simp_all
  have ft: "fst (assertExecutable fs0 ''/t.sh'')
      = Some ''script not found at /t.sh: stat /t.sh: no such file or directory''"
    by (simp add: assertExecutable_def fs0_def)
  have st: "snd (assertExecutable fs0 ''/t.sh'') = fs0"
    using assertExecutable_validation [of fs0 "''/t.sh''" ?mt env0] by (simp add: fs0_def)
  have fu: "fst (assertExecutable fs1 ''/u.sh'') = None"
    using assertExecutable_validation [of fs1 "''/u.sh''" ?mu env0] m(1) by (simp add: fs1_def)
  have su: "statOf (snd (assertExecutable fs1 ''/u.sh'')) ''/u.sh'' = Inr 0x1ED"
    using assertExecutable_validation [of fs1 "''/u.sh''" ?mu env0] m by (simp add: fs1_def)
  have "Update env0 fs0 ?mt (KeyMsg ''y'') =
     ((?mt\<lparr>viewport := SetContent ''script not found at /t.sh: stat /t.sh: no such file or directory''
           (viewport model0), stage := stepDone\<rparr>, None), fs0)"
    using assertExecutable_validation [of fs0 "''/t.sh''" ?mt env0] t ft st
    by (simp add: env0_def)
  moreover have "Update env0 fs1 ?mu (KeyMsg ''y'') =
     ((?mu\<lparr>stage := stepRunning, viewport := SetContent [] (viewport ?mu), ctx := Some False, cancel := True\<rparr>,
       Some (Batch [ProcessCmd (?mu\<lparr>stage := stepRunning, viewport := SetContent [] (viewport ?mu),
                       ctx := Some False, cancel := True\<rparr>), nextTick])),
      snd (assertExecutable fs1 ''/u.sh''))"
    using assertExecutable_validation [of fs1 "''/u.sh''" ?mu env0] u fu by simp
  ultimately show ?thesis using su by simp
qed

text \<open>
  C5 as it is written fails: a regular file with mode 0644 on which \<^verbatim>\<open>Chmod\<close> fails has no
  executable bit and gets none, and \<^verbatim>\<open>assertExecutable\<close> still returns no error; on \<^verbatim>\<open>y\<close>
  the session goes to the Running stage.
\<close>

theorem assertExecutable_ignores_chmod:
  "statOf fs0 ''/s.sh'' = Inr 0x1A4 \<and> (0x1A4 :: 32 word) AND 0x49 = 0 \<and> chmodFails fs0 ''/s.sh'' \<and>
   assertExecutable fs0 ''/s.sh'' = (None, fs0) \<and>
   stage (fst (fst (Update env0 fs0 (model0\<lparr>stage := stepConfirm\<rparr>) (KeyMsg ''y'')))) = stepRunning"
  by (simp add: assertExecutable_def Chmod_def fs0_def ModeDir_def Update_def updateConfirm_def
      confirmRun_def isQuit_def model0_def Let_def)

subsection \<open>Starting the process\<close>






subsection \<open>The tick in the Running stage\<close>



lemma finish_empty: "doneCh m = [] \<Longrightarrow> finish e m = (m, Some nextTick)"
  by (simp add: finish_def)




subsection \<open>The completion of the process\<close>

lemma startProcessCmd_no_SendDone:
  "filter isSendDone (closure (startProcessCmd m po) @ scanner (startProcessCmd m po)) = []"
  by (simp add: startProcessCmd_def isSendDone_def filter_empty_conv split: option.splits)

lemma running_never_done:
  assumes "stage m = stepRunning" and "doneCh m = []"
  shows "stage (fst (fst (Update e fs m mg))) = stepRunning \<and> doneCh (fst (fst (Update e fs m mg))) = []"
proof (cases mg)
  case (KeyMsg k)
  with assms show ?thesis by (simp add: Update_def updateRunning_def)
next
  case tickMsg
  from assms have "doneCh (drain 200 m) = []" by simp
  from finish_empty [OF this] assms tickMsg show ?thesis
    by (simp add: Update_def updateRunning_def)
qed (use assms in \<open>simp_all add: Update_def updateRunning_def split: prod.splits\<close>)

text \<open>
  C1, on the code as it is. The slot \<^verbatim>\<open>m.done\<close> is made empty by \<^verbatim>\<open>initialModel\<close>. A process
  that starts, prints a line and exits with status 0: the closure returns the completion to the event loop as a message and sends
  nothing on the channel \<^verbatim>\<open>m.done\<close>, and so does the scanner. In the Running stage that
  message goes to the spinner: the slot stays empty and the stage stays Running, and
  the tick after it finds the slot empty and arms the timer again.
\<close>

theorem completion_never_published:
  "doneCh (initialModel env0 (\<lambda>n. []) (\<lambda>v w. w\<lparr>tiValue := v\<rparr>) (\<lambda>v w. w\<lparr>taValue := v\<rparr>) ''/s.sh'') = [] \<and>
   result (startProcessCmd modelR po0) = Returned (doneMsg None) \<and>
   filter isSendDone (closure (startProcessCmd modelR po0) @ scanner (startProcessCmd modelR po0)) = [] \<and>
   stage (fst (fst (Update env0 fs0 modelR (doneMsg None)))) = stepRunning \<and>
   doneCh (fst (fst (Update env0 fs0 modelR (doneMsg None)))) = [] \<and>
   stage (fst (fst (Update env0 fs0 (fst (fst (Update env0 fs0 modelR (doneMsg None)))) tickMsg)))
     = stepRunning \<and>
   snd (fst (Update env0 fs0 (fst (fst (Update env0 fs0 modelR (doneMsg None)))) tickMsg))
     = Some nextTick"
proof -
  have r: "stage modelR = stepRunning" "doneCh modelR = []" by (simp_all add: modelR_def model0_def)
  have u: "fst (fst (Update env0 fs0 modelR (doneMsg None))) = modelR"
    using r(1) by (simp add: Update_def updateRunning_def env0_def)
  have "doneCh (drain 200 modelR) = []" using r(2) by simp
  from finish_empty [OF this] r(1)
  have t: "fst (Update env0 fs0 modelR tickMsg) = (drain 200 modelR, Some nextTick)"
    by (simp add: Update_def updateRunning_def)
  have "result (startProcessCmd modelR po0) = Returned (doneMsg None)"
    by (simp add: startProcessCmd_def po0_def)
  moreover have "doneCh (initialModel env0 (\<lambda>n. []) (\<lambda>v w. w\<lparr>tiValue := v\<rparr>) (\<lambda>v w. w\<lparr>taValue := v\<rparr>) ''/s.sh'') = []"
    by (simp add: initialModel_def)
  ultimately show ?thesis using startProcessCmd_no_SendDone [of modelR po0] r u t by simp
qed

subsection \<open>The log\<close>











lemma lines_appendLogLine [simp]: "lines (appendLogLine m s) = lines m"
  by (simp add: appendLogLine_def Let_def)




lemma vpContent_SetYOffset [simp]: "vpContent (SetYOffset n v) = vpContent v"
  by (simp add: SetYOffset_def)

lemma vpContent_GotoBottom [simp]: "vpContent (GotoBottom v) = vpContent v"
  by (simp add: GotoBottom_def)

lemma vpContent_SetContent [simp]: "vpContent (SetContent s v) = s"
  by (simp add: SetContent_def Let_def)


lemma scanLines_Nil: "scanLines mx [] = []"
  by (subst scanLines.simps) simp






subsection \<open>White space and \<^verbatim>\<open>TrimSpace\<close>\<close>

lemma spaceRunes_nonempty: "w \<in> set spaceRunes \<Longrightarrow> w \<noteq> []"
  by (auto simp: spaceRunes_def)

lemma spaceRunes_prefix_free_all:
  "list_all (\<lambda>w. list_all (\<lambda>w'. \<not> prefix w w' \<or> w = w') spaceRunes) spaceRunes"
  by code_simp

lemma spaceRunes_prefix_free:
  "w \<in> set spaceRunes \<Longrightarrow> w' \<in> set spaceRunes \<Longrightarrow> prefix w w' \<Longrightarrow> w = w'"
  using spaceRunes_prefix_free_all unfolding list_all_iff by blast

lemma spaceAtStart_SomeD: "spaceAtStart s = Some w \<Longrightarrow> w \<in> set spaceRunes \<and> prefix w s"
  unfolding spaceAtStart_def find_Some_iff by auto

lemma spaceAtStart_None_iff: "spaceAtStart s = None \<longleftrightarrow> (\<forall>w\<in>set spaceRunes. \<not> prefix w s)"
  unfolding spaceAtStart_def find_None_iff by blast

lemma spaceAtStart_rune:
  assumes "w \<in> set spaceRunes"
  shows "spaceAtStart (w @ r) = Some w"
proof (cases "spaceAtStart (w @ r)")
  case None
  with assms show ?thesis unfolding spaceAtStart_None_iff by auto
next
  case (Some w')
  then have w': "w' \<in> set spaceRunes" and p: "prefix w' (w @ r)"
    using spaceAtStart_SomeD by blast+
  have "prefix w (w @ r)" by simp
  with p have "prefix w w' \<or> prefix w' w" by (rule prefix_same_cases [THEN disjE]) blast+
  with assms w' have "w' = w" using spaceRunes_prefix_free by blast
  with Some show ?thesis by simp
qed

lemma trimLeft_rune:
  assumes "w \<in> set spaceRunes"
  shows "trimLeft (w @ r) = trimLeft r"
proof -
  have "w \<noteq> []" using assms by (rule spaceRunes_nonempty)
  then obtain c cs where w: "w = c # cs" by (cases w) auto
  have "spaceAtStart (c # cs @ r) = Some w" using spaceAtStart_rune [OF assms, of r] w by simp
  then show ?thesis unfolding w by simp
qed

lemma trimLeft_blank: "blank s \<Longrightarrow> trimLeft s = []"
  by (induction rule: blank.induct) (simp_all add: trimLeft_rune)

lemma trimLeft_Nil_blank: "trimLeft s = [] \<Longrightarrow> blank s"
proof (induction s rule: trimLeft.induct)
  case 1
  show ?case by (rule blank_Nil)
next
  case (2 c cs)
  show ?case
  proof (cases "spaceAtStart (c # cs)")
    case None
    with "2.prems" show ?thesis by simp
  next
    case (Some w)
    then have w: "w \<in> set spaceRunes" and p: "prefix w (c # cs)"
      using spaceAtStart_SomeD by blast+
    have "w \<noteq> []" using w by (rule spaceRunes_nonempty)
    with p obtain ws where wc: "w = c # ws" by (cases w) auto
    with p have cs: "c # cs = w @ drop (length w - 1) cs"
      by (auto simp: prefix_def)
    from "2.prems" Some have "trimLeft (drop (length w - 1) cs) = []" by simp
    then have "blank (drop (length w - 1) cs)" using Some by (intro "2.IH")
    with w have "blank (w @ drop (length w - 1) cs)" by (rule blank_rune)
    with cs show ?thesis by simp
  qed
qed

lemma trimLeft_result: "trimLeft s = [] \<or> spaceAtStart (trimLeft s) = None"
proof (induction s rule: trimLeft.induct)
  case 1
  show ?case by simp
next
  case (2 c cs)
  show ?case
  proof (cases "spaceAtStart (c # cs)")
    case None
    then show ?thesis by simp
  next
    case (Some w)
    with "2.IH" [OF Some] show ?thesis by simp
  qed
qed

lemma trimRightStep_Nil: "trimRightStep [] = None"
proof -
  have "spaceAtEnd [] = None"
    unfolding spaceAtEnd_def find_None_iff using spaceRunes_nonempty by auto
  then show ?thesis by (simp add: trimRightStep_def)
qed

lemma trimRight_Nil: "trimRight [] = []"
  by (subst trimRight.simps) (simp add: trimRightStep_Nil)

lemma trimRightStep_SomeD:
  assumes "trimRightStep s = Some s'"
  shows "\<exists>w\<in>set spaceRunes. s = s' @ w"
proof -
  from assms obtain w where e: "spaceAtEnd s = Some w" and s': "s' = take (length s - length w) s"
    by (auto simp: trimRightStep_def split: option.splits if_splits)
  from e have w: "w \<in> set spaceRunes" and "suffix w s"
    unfolding spaceAtEnd_def find_Some_iff by auto
  then obtain a where "s = a @ w" by (auto simp: suffix_def)
  with s' have "s = s' @ w" by simp
  with w show ?thesis by blast
qed

lemma trimRight_keeps_start:
  "s \<noteq> [] \<Longrightarrow> spaceAtStart s = None \<Longrightarrow> trimRight s \<noteq> []"
proof (induction s rule: trimRight.induct)
  case (1 s)
  show ?case
  proof (cases "trimRightStep s")
    case None
    with "1.prems" show ?thesis by (subst trimRight.simps) simp
  next
    case (Some s')
    then obtain w where w: "w \<in> set spaceRunes" and s: "s = s' @ w"
      using trimRightStep_SomeD by blast
    from "1.prems"(2) have np: "\<forall>v\<in>set spaceRunes. \<not> prefix v s"
      unfolding spaceAtStart_None_iff .
    have ne: "s' \<noteq> []"
    proof
      assume "s' = []"
      with s w np show False by auto
    qed
    have "spaceAtStart s' = None"
      unfolding spaceAtStart_None_iff
    proof
      fix v assume v: "v \<in> set spaceRunes"
      show "\<not> prefix v s'"
      proof
        assume "prefix v s'"
        then have "prefix v s" unfolding s by (rule prefix_prefix)
        with np v show False by blast
      qed
    qed
    with ne have "trimRight s' \<noteq> []" using Some by (intro "1.IH")
    with Some show ?thesis by (subst trimRight.simps) simp
  qed
qed

lemma TrimSpace_Nil_iff: "TrimSpace s = [] \<longleftrightarrow> blank s"
proof
  assume t: "TrimSpace s = []"
  have "trimLeft s = []"
  proof (rule ccontr)
    assume ne: "trimLeft s \<noteq> []"
    with trimLeft_result [of s] have "spaceAtStart (trimLeft s) = None" by blast
    with ne have "trimRight (trimLeft s) \<noteq> []" by (rule trimRight_keeps_start)
    with t show False by (simp add: TrimSpace_def)
  qed
  then show "blank s" by (rule trimLeft_Nil_blank)
next
  assume "blank s"
  then have "trimLeft s = []" by (rule trimLeft_blank)
  then show "TrimSpace s = []" by (simp add: TrimSpace_def trimRight_Nil)
qed

subsection \<open>Enter on an empty field\<close>

text \<open>
  C7. In the Email stage and in the API stage, Enter on a value that is empty or made
  of white space only leaves the session as it is: the same model, no command. Enter
  on any other value moves to the next stage, API after Email and Domains after API,
  with the widget of that stage focused and nothing else changed.
\<close>

theorem enter_needs_text:
  "(stage m = stepEmail \<longrightarrow>
      Update e fs m (KeyMsg ''enter'') =
        (if blank (tiValue (email m)) then ((m, None), fs)
         else ((m\<lparr>stage := stepAPI, apiKey := tiFocus e (apiKey m)\<rparr>, None), fs))) \<and>
   (stage m = stepAPI \<longrightarrow>
      Update e fs m (KeyMsg ''enter'') =
        (if blank (tiValue (apiKey m)) then ((m, None), fs)
         else ((m\<lparr>stage := stepDomains, domArea := taFocus e (domArea m)\<rparr>, None), fs)))"
  by (simp add: Update_def updateEmail_def updateAPI_def isQuit_def TrimSpace_Nil_iff)

theorem enter_needs_text_witness:
  "Update env0 fs0 (model0\<lparr>email := \<lparr>tiValue = [CHR 0x20, CHR 0x09, CHR 0xC2, CHR 0xA0], tiState = 0\<rparr>\<rparr>)
      (KeyMsg ''enter'')
     = ((model0\<lparr>email := \<lparr>tiValue = [CHR 0x20, CHR 0x09, CHR 0xC2, CHR 0xA0], tiState = 0\<rparr>\<rparr>, None), fs0) \<and>
   Update env0 fs0 model0 (KeyMsg ''enter'') = ((model0\<lparr>stage := stepAPI\<rparr>, None), fs0) \<and>
   Update env0 fs0 (model0\<lparr>stage := stepAPI\<rparr>) (KeyMsg ''enter'')
     = ((model0\<lparr>stage := stepDomains\<rparr>, None), fs0)"
proof -
  let ?b = "model0\<lparr>email := \<lparr>tiValue = [CHR 0x20, CHR 0x09, CHR 0xC2, CHR 0xA0], tiState = 0\<rparr>\<rparr>"
  have t: "TrimSpace [CHR 0x20, CHR 0x09, CHR 0xC2, CHR 0xA0] = []"
    "TrimSpace '' me@example.com'' \<noteq> []" "TrimSpace ''key '' \<noteq> []"
    by code_simp+
  have b: "blank (tiValue (email ?b))" "\<not> blank (tiValue (email model0))"
    "\<not> blank (tiValue (apiKey (model0\<lparr>stage := stepAPI\<rparr>)))"
    using t by (simp_all add: TrimSpace_Nil_iff [symmetric] model0_def)
  have s: "stage ?b = stepEmail" "stage model0 = stepEmail" "stage (model0\<lparr>stage := stepAPI\<rparr>) = stepAPI"
    by (simp_all add: model0_def)
  have "Update env0 fs0 ?b (KeyMsg ''enter'') = ((?b, None), fs0)"
    using enter_needs_text [of ?b env0 fs0] s(1) b(1) by simp
  moreover have "Update env0 fs0 model0 (KeyMsg ''enter'') = ((model0\<lparr>stage := stepAPI\<rparr>, None), fs0)"
    using enter_needs_text [of model0 env0 fs0] s(2) b(2) by (simp add: env0_def)
  moreover have "Update env0 fs0 (model0\<lparr>stage := stepAPI\<rparr>) (KeyMsg ''enter'')
      = ((model0\<lparr>stage := stepDomains\<rparr>, None), fs0)"
    using enter_needs_text [of "model0\<lparr>stage := stepAPI\<rparr>" env0 fs0] s(3) b(3) by (simp add: env0_def)
  ultimately show ?thesis by blast
qed

end
